theory Spec2Isabelle
  imports Complex_Main "HOL-Library.Word"
begin

unbundle bit_operations_syntax

section \<open>Machine types\<close>

text \<open>
  \<^verbatim>\<open>size_t\<close> is the 64-bit unsigned integer of the LP64 targets andi is built for,
  \<^verbatim>\<open>unsigned int\<close> has 32 bits and \<^verbatim>\<open>unsigned char\<close> has 8. Arithmetic on words wraps
  around, as unsigned arithmetic does in C.
\<close>

type_synonym size_t = "64 word"
type_synonym uint = "32 word"
type_synonym uchar = "8 word"

text \<open>
  A \<^verbatim>\<open>char\<close> of a sequence is a byte. \<^verbatim>\<open>c_char\<close> gives its bit pattern. The comparison
  \<^verbatim>\<open>s < 'A'\<close> is the one of a signed \<^verbatim>\<open>char\<close> (the x86 ABI): the bytes \<^verbatim>\<open>0x80\<close> to
  \<^verbatim>\<open>0xFF\<close> are negative and hence below \<^verbatim>\<open>'A'\<close>. On the ASCII range the signed and the
  unsigned reading agree.
\<close>

definition c_char :: "char \<Rightarrow> uchar" where
  "c_char c = of_char c"

definition char_lt :: "char \<Rightarrow> char \<Rightarrow> bool" where
  "char_lt a b = (sint (c_char a) < sint (c_char b))"

section \<open>Doubles\<close>

text \<open>
  A \<^verbatim>\<open>double\<close> is an IEEE 754 binary64 value: not-a-number, one of the two infinities,
  or a finite number. A finite double is represented by the real number it denotes, and
  the two zeros by the one real zero. Every arithmetic operation returns the exact
  result rounded to binary64 by \<open>rnd\<close>, in the default mode (to nearest, ties to the
  even significand), and every operation of an expression is rounded on its own, as
  on x86-64 with SSE2, where a \<^verbatim>\<open>double\<close> is evaluated in its own format and a product
  is not fused with a following sum.
\<close>

datatype double = NaN | NegInf | Finite real | PosInf

text \<open>
  Rounding to the nearest integer, ties to the even one.
\<close>

definition round_even :: "real \<Rightarrow> int" where
  "round_even r =
     (let f = \<lfloor>r\<rfloor>; g = r - of_int f
      in if g < 1 / 2 then f else if 1 / 2 < g then f + 1 else if even f then f else f + 1)"

text \<open>
  The binary exponent of a number other than zero, not below the exponent \<open>emin\<close> of the
  smallest normal numbers, and the spacing \<open>ulp\<close> of the doubles at that exponent:
  a significand has 53 bits, so the doubles between \<open>2 ^ e\<close> and \<open>2 ^ (e + 1)\<close> are the multiples
  of \<open>2 ^ (e - 52)\<close>, and the subnormal numbers are the multiples of \<open>2 ^ (emin - 52)\<close>.
\<close>

definition emin :: int where
  "emin = - 1022"

definition expo :: "real \<Rightarrow> int" where
  "expo x = max \<lfloor>log 2 \<bar>x\<bar>\<rfloor> emin"

definition ulp :: "real \<Rightarrow> real" where
  "ulp x = 2 powi (expo x - 52)"

text \<open>
  The double nearest to a real number, as long as the exponent does not overflow: the
  magnitude is rounded to the nearest multiple of \<open>ulp\<close>, and the sign is kept.
\<close>

definition rnd_real :: "real \<Rightarrow> real" where
  "rnd_real x =
     (if x = 0 then 0 else sgn x * (of_int (round_even (\<bar>x\<bar> / ulp x)) * ulp x))"

text \<open>
  A rounded magnitude of \<open>2 ^ 1024\<close> or more is beyond the largest double and becomes an
  infinity.
\<close>

definition huge :: real where
  "huge = 2 ^ 1024"

definition rnd :: "real \<Rightarrow> double" where
  "rnd x =
     (let y = rnd_real x
      in if huge \<le> \<bar>y\<bar> then (if 0 < x then PosInf else NegInf) else Finite y)"

text \<open>The conversion \<^verbatim>\<open>(double)n\<close> of a \<^verbatim>\<open>size_t\<close>: exact up to \<open>2 ^ 53\<close>, rounded above.\<close>

definition of_size_t :: "size_t \<Rightarrow> double" where
  "of_size_t n = rnd (real (unat n))"

text \<open>
  The operations of the program. The special values follow IEEE 754: \<^verbatim>\<open>NAN\<close> propagates
  through every operation and makes every comparison false, \<^verbatim>\<open>0.0 / 0.0\<close> is \<^verbatim>\<open>NAN\<close> and
  \<^verbatim>\<open>x / 0.0\<close> is an infinity for \<^verbatim>\<open>x\<close> other than zero.
\<close>

fun dmul :: "double \<Rightarrow> double \<Rightarrow> double" where
  "dmul NaN b = NaN"
| "dmul a NaN = NaN"
| "dmul (Finite x) (Finite y) = rnd (x * y)"
| "dmul (Finite x) PosInf = (if x = 0 then NaN else if 0 < x then PosInf else NegInf)"
| "dmul (Finite x) NegInf = (if x = 0 then NaN else if 0 < x then NegInf else PosInf)"
| "dmul PosInf (Finite y) = (if y = 0 then NaN else if 0 < y then PosInf else NegInf)"
| "dmul NegInf (Finite y) = (if y = 0 then NaN else if 0 < y then NegInf else PosInf)"
| "dmul PosInf PosInf = PosInf"
| "dmul PosInf NegInf = NegInf"
| "dmul NegInf PosInf = NegInf"
| "dmul NegInf NegInf = PosInf"

fun dsub :: "double \<Rightarrow> double \<Rightarrow> double" where
  "dsub NaN b = NaN"
| "dsub a NaN = NaN"
| "dsub (Finite x) (Finite y) = rnd (x - y)"
| "dsub (Finite x) PosInf = NegInf"
| "dsub (Finite x) NegInf = PosInf"
| "dsub PosInf (Finite y) = PosInf"
| "dsub NegInf (Finite y) = NegInf"
| "dsub PosInf PosInf = NaN"
| "dsub PosInf NegInf = PosInf"
| "dsub NegInf PosInf = NegInf"
| "dsub NegInf NegInf = NaN"

text \<open>
  Division. A zero divisor is read as \<^verbatim>\<open>+0.0\<close>: the divisors of this program are
  conversions of a \<^verbatim>\<open>size_t\<close> and the literal \<^verbatim>\<open>3.0\<close>, which are never \<^verbatim>\<open>-0.0\<close>.
\<close>

fun ddiv :: "double \<Rightarrow> double \<Rightarrow> double" where
  "ddiv NaN b = NaN"
| "ddiv a NaN = NaN"
| "ddiv (Finite x) (Finite y) =
     (if y = 0 then (if x = 0 then NaN else if 0 < x then PosInf else NegInf)
      else rnd (x / y))"
| "ddiv (Finite x) PosInf = Finite 0"
| "ddiv (Finite x) NegInf = Finite 0"
| "ddiv PosInf (Finite y) = (if 0 \<le> y then PosInf else NegInf)"
| "ddiv NegInf (Finite y) = (if 0 \<le> y then NegInf else PosInf)"
| "ddiv PosInf PosInf = NaN"
| "ddiv PosInf NegInf = NaN"
| "ddiv NegInf PosInf = NaN"
| "ddiv NegInf NegInf = NaN"

text \<open>
  \<^verbatim>\<open>log\<close> belongs to the C library. Annex F of the C standard fixes its special values:
  the logarithm of a negative number is \<^verbatim>\<open>NAN\<close>, \<^verbatim>\<open>log(0.0)\<close> is minus infinity and
  \<^verbatim>\<open>log(1.0)\<close> is zero. For every other positive argument the library returns some double
  near the logarithm; how near is not fixed by the standard, so the function \<open>lg\<close> that
  gives this double is a parameter.
\<close>

fun dlog :: "(real \<Rightarrow> real) \<Rightarrow> double \<Rightarrow> double" where
  "dlog lg NaN = NaN"
| "dlog lg NegInf = NaN"
| "dlog lg PosInf = PosInf"
| "dlog lg (Finite x) =
     (if x < 0 then NaN else if x = 0 then NegInf else if x = 1 then Finite 0
      else Finite (lg x))"

fun dle :: "double \<Rightarrow> double \<Rightarrow> bool" where
  "dle NaN b = False"
| "dle a NaN = False"
| "dle NegInf b = True"
| "dle a PosInf = True"
| "dle (Finite x) (Finite y) = (x \<le> y)"
| "dle (Finite x) NegInf = False"
| "dle PosInf b = False"

section \<open>The mutation matrix\<close>

text \<open>
  Modelled from the spec: the enumeration of the ten substitution categories and the
  struct \<^verbatim>\<open>model\<close> are declared in \<^verbatim>\<open>model.h\<close>, which is not among the sources. The
  spec gives ten categories, one per unordered pair of nucleotides, with the four
  no-change categories A-A, C-C, G-G, T-T and the six change categories, and a matrix
  of ten counts and a reference length. The numbering is the one the table \<^verbatim>\<open>map4\<close>
  of \<^verbatim>\<open>model_count\<close> computes (row bases 0, 4, 7 and 9 for A, C, G and T); a name
  with the larger nucleotide first is an alias (\<^verbatim>\<open>GtoC\<close> is \<^verbatim>\<open>CtoG\<close>). The counts are
  \<^verbatim>\<open>size_t\<close>, as \<^verbatim>\<open>model_total\<close> and \<^verbatim>\<open>model_sum_types\<close> add them up, and the
  reference length is taken as \<^verbatim>\<open>size_t\<close>, as \<^verbatim>\<open>model_coverage\<close> reads it.
\<close>

definition AtoA :: nat where "AtoA = 0"
definition AtoC :: nat where "AtoC = 1"
definition AtoG :: nat where "AtoG = 2"
definition AtoT :: nat where "AtoT = 3"
definition CtoC :: nat where "CtoC = 4"
definition CtoG :: nat where "CtoG = 5"
definition CtoT :: nat where "CtoT = 6"
definition GtoG :: nat where "GtoG = 7"
definition GtoT :: nat where "GtoT = 8"
definition TtoT :: nat where "TtoT = 9"
definition MUTCOUNTS :: nat where "MUTCOUNTS = 10"
definition GtoC :: nat where "GtoC = CtoG"

record model =
  counts :: "size_t list"
  seq_len :: size_t

text \<open>The array \<^verbatim>\<open>counts\<close> has exactly \<^verbatim>\<open>MUTCOUNTS\<close> cells.\<close>

definition model_wf :: "model \<Rightarrow> bool" where
  "model_wf MM = (length (counts MM) = MUTCOUNTS)"

text \<open>The empty matrix for a reference of length \<open>l\<close>: every count is zero.\<close>

definition model_empty :: "size_t \<Rightarrow> model" where
  "model_empty l = \<lparr>counts = replicate MUTCOUNTS 0, seq_len = l\<rparr>"

text \<open>
  \<^verbatim>\<open>model_sum_types\<close> adds the counts named by \<^verbatim>\<open>summands\<close> up to the terminator
  \<^verbatim>\<open>MUTCOUNTS\<close>; the macro \<^verbatim>\<open>model_sum\<close> appends the terminator to its arguments.
\<close>

fun model_sum_loop :: "model \<Rightarrow> nat list \<Rightarrow> size_t \<Rightarrow> size_t" where
  "model_sum_loop MM [] tot = tot"
| "model_sum_loop MM (s # summands) tot =
     (if s = MUTCOUNTS then tot
      else model_sum_loop MM summands (tot + counts MM ! s))"

definition model_sum_types :: "model \<Rightarrow> nat list \<Rightarrow> size_t" where
  "model_sum_types MM summands = model_sum_loop MM summands 0"

definition model_sum :: "model \<Rightarrow> nat list \<Rightarrow> size_t" where
  "model_sum MM args = model_sum_types MM (args @ [MUTCOUNTS])"

definition model_average :: "model \<Rightarrow> model \<Rightarrow> model" where
  "model_average MM NN =
     (let ret = MM;
          ret = fold (\<lambda>i r. r\<lparr>counts := (counts r)[i := counts r ! i + counts NN ! i]\<rparr>)
                  [0..<MUTCOUNTS] ret
      in ret\<lparr>seq_len := seq_len ret + seq_len NN\<rparr>)"

definition model_total :: "model \<Rightarrow> size_t" where
  "model_total MM = fold (\<lambda>i tot. tot + counts MM ! i) [0..<MUTCOUNTS] 0"

definition model_coverage :: "model \<Rightarrow> double" where
  "model_coverage MM =
     (let covered = model_total MM; actual = seq_len MM
      in ddiv (of_size_t covered) (of_size_t actual))"

section \<open>The distance estimators\<close>

definition estimate_RAW :: "model \<Rightarrow> double" where
  "estimate_RAW MM =
     (let nucl = model_total MM;
          SNPs = model_sum MM [AtoC, AtoG, AtoT, CtoG, CtoT, GtoT]
      in if nucl \<le> 3 then NaN
         else ddiv (of_size_t SNPs) (of_size_t nucl))"

text \<open>
  The literals \<^verbatim>\<open>0.75\<close>, \<^verbatim>\<open>0.25\<close>, \<^verbatim>\<open>1.0\<close>, \<^verbatim>\<open>2.0\<close>, \<^verbatim>\<open>3.0\<close> and \<^verbatim>\<open>4.0\<close> are doubles; the
  quotient \<^verbatim>\<open>4.0 / 3.0\<close> is not and is rounded like every other result. The first
  argument of \<open>estimate_JC\<close> and \<open>estimate_KIMURA\<close> is the \<^verbatim>\<open>log\<close> of the C library.
\<close>

definition estimate_JC :: "(real \<Rightarrow> real) \<Rightarrow> model \<Rightarrow> double" where
  "estimate_JC lg MM =
     (let dist = estimate_RAW MM;
          dist = dmul (Finite (- 0.75))
                   (dlog lg (dsub (Finite 1.0) (dmul (ddiv (Finite 4.0) (Finite 3.0)) dist)))
      in if dle dist (Finite 0.0) then Finite 0.0 else dist)"

definition estimate_KIMURA :: "(real \<Rightarrow> real) \<Rightarrow> model \<Rightarrow> double" where
  "estimate_KIMURA lg MM =
     (let nucl = model_total MM;
          transitions = model_sum MM [AtoG, CtoT];
          transversions = model_sum MM [AtoC, AtoT, GtoC, GtoT];
          P = ddiv (of_size_t transitions) (of_size_t nucl);
          Q = ddiv (of_size_t transversions) (of_size_t nucl);
          tmp = dsub (dsub (Finite 1.0) (dmul (Finite 2.0) P)) Q;
          dist = dmul (Finite (- 0.25))
                   (dlog lg (dmul (dmul (dsub (Finite 1.0) (dmul (Finite 2.0) Q)) tmp) tmp))
      in if dle dist (Finite 0.0) then Finite 0.0 else dist)"

section \<open>Bootstrapping\<close>

text \<open>
  The sampler belongs to the GNU Scientific Library, which declares it as
  \<^verbatim>\<open>void gsl_ran_multinomial (const gsl_rng * r, size_t K, unsigned int N,
  const double p[], unsigned int n[])\<close>: it draws \<^verbatim>\<open>N\<close> trials over \<^verbatim>\<open>K\<close> categories
  with the weights \<^verbatim>\<open>p\<close> and stores the counts in \<^verbatim>\<open>n\<close>, advancing the generator.
  Its \<^verbatim>\<open>N\<close> and the cells of \<^verbatim>\<open>n\<close> (declared \<^verbatim>\<open>unsigned int n[MUTCOUNTS]\<close> in
  \<^verbatim>\<open>model_bootstrap\<close>) are \<^verbatim>\<open>unsigned int\<close>, so the call converts the \<^verbatim>\<open>size_t\<close> total
  to 32 bits. The sampler is a parameter here, with the state of the generator \<^verbatim>\<open>RNG\<close>
  passed through.
\<close>

type_synonym 'g multinomial = "'g \<Rightarrow> nat \<Rightarrow> uint \<Rightarrow> double list \<Rightarrow> uint list \<times> 'g"

definition model_bootstrap :: "'g multinomial \<Rightarrow> 'g \<Rightarrow> model \<Rightarrow> model \<times> 'g" where
  "model_bootstrap gsl_ran_multinomial RNG MM =
     (let datum = MM;
          nucl = model_total MM;
          p = map (\<lambda>i. ddiv (of_size_t (counts MM ! i)) (of_size_t nucl)) [0..<MUTCOUNTS];
          (n, RNG') = gsl_ran_multinomial RNG MUTCOUNTS (ucast nucl) p;
          datum = fold (\<lambda>i d. d\<lparr>counts := (counts d)[i := ucast (n ! i)]\<rparr>)
                    [0..<MUTCOUNTS] datum
      in (datum, RNG'))"

text \<open>
  A valid draw over the \<^verbatim>\<open>MUTCOUNTS\<close> categories fills that many cells with counts
  that sum to the \<^verbatim>\<open>N\<close> it was asked for.
\<close>

definition valid_draw :: "'g multinomial \<Rightarrow> bool" where
  "valid_draw f =
     (\<forall>g N p. length (fst (f g MUTCOUNTS N p)) = MUTCOUNTS \<and>
        sum_list (map unat (fst (f g MUTCOUNTS N p))) = unat N)"

section \<open>Counting\<close>

text \<open>
  Modelled from the spec: the global \<^verbatim>\<open>MODEL\<close> and the constants \<^verbatim>\<open>M_RAW\<close>, \<^verbatim>\<open>M_JC\<close>
  and \<^verbatim>\<open>M_KIMURA\<close> come from \<^verbatim>\<open>global.h\<close>, which is not among the sources. The spec
  describes a configured selector of the active model: RAW, JC, KIMURA or another one.
\<close>

datatype model_sel = M_RAW | M_JC | M_KIMURA | M_OTHER

text \<open>
  The fall-back loop of \<^verbatim>\<open>model_count_equal\<close> reads \<^verbatim>\<open>len\<close> characters from \<^verbatim>\<open>S\<close>;
  reading past the end of the fragment is undefined in C and \<open>None\<close> here.
\<close>

fun count_equal_loop :: "string \<Rightarrow> nat \<Rightarrow> size_t list \<Rightarrow> size_t list option" where
  "count_equal_loop S 0 local_counts = Some local_counts"
| "count_equal_loop [] (Suc len) local_counts = None"
| "count_equal_loop (s # S) (Suc len) local_counts =
     (if char_lt s (CHR ''A'') then count_equal_loop S len local_counts
      else
        let k = unat (drop_bit 1 (c_char s) AND 3)
        in count_equal_loop S len (local_counts[k := local_counts ! k + 1]))"

definition model_count_equal :: "model_sel \<Rightarrow> model \<Rightarrow> string \<Rightarrow> size_t \<Rightarrow> model option" where
  "model_count_equal MODEL MM S len =
     (if MODEL = M_RAW \<or> MODEL = M_JC \<or> MODEL = M_KIMURA then
        let fourth = len div 4;
            c = counts MM;
            c = c[AtoA := c ! AtoA + fourth];
            c = c[CtoC := c ! CtoC + fourth];
            c = c[GtoG := c ! GtoG + fourth];
            c = c[TtoT := c ! TtoT + (fourth + (len AND 3))]
        in Some (MM\<lparr>counts := c\<rparr>)
      else
        case count_equal_loop S (unat len) (replicate 4 0) of
          None \<Rightarrow> None
        | Some local_counts \<Rightarrow>
            let c = counts MM;
                c = c[AtoA := c ! AtoA + local_counts ! 0];
                c = c[CtoC := c ! CtoC + local_counts ! 1];
                c = c[GtoG := c ! GtoG + local_counts ! 3];
                c = c[TtoT := c ! TtoT + local_counts ! 2]
            in Some (MM\<lparr>counts := c\<rparr>))"

definition nucl2bit :: "uchar \<Rightarrow> uchar" where
  "nucl2bit c =
     (let c = c AND 6;
          c = c XOR drop_bit 1 c
      in drop_bit 1 c)"

definition map4 :: uint where
  "map4 = 0x9740"

text \<open>
  The index that the body of the loop of \<^verbatim>\<open>model_count\<close> computes for a pair of
  characters. The difference \<^verbatim>\<open>foo - baz\<close> is an \<^verbatim>\<open>int\<close> that the addition converts to
  \<^verbatim>\<open>unsigned int\<close>.
\<close>

definition mut_index :: "char \<Rightarrow> char \<Rightarrow> uint" where
  "mut_index s q =
     (let foo = nucl2bit (c_char s);
          baz = nucl2bit (c_char q);
          (foo, baz) = (if baz > foo then (baz, foo) else (foo, baz));
          base = drop_bit (4 * unat baz) map4 AND 0xf;
          index = base + (ucast foo - ucast baz)
      in index)"

text \<open>
  The loop of \<^verbatim>\<open>model_count\<close>, with \<^verbatim>\<open>S\<close> and \<^verbatim>\<open>Q\<close> advancing and the number of
  positions left. A read past the end of a fragment and an increment outside
  \<^verbatim>\<open>local_counts\<close> are undefined in C and \<open>None\<close> here.
\<close>

fun count_loop :: "string \<Rightarrow> string \<Rightarrow> nat \<Rightarrow> size_t list \<Rightarrow> size_t list option" where
  "count_loop S Q 0 local_counts = Some local_counts"
| "count_loop [] Q (Suc len) local_counts = None"
| "count_loop S [] (Suc len) local_counts = None"
| "count_loop (s # S) (q # Q) (Suc len) local_counts =
     (if char_lt s (CHR ''A'') \<or> char_lt q (CHR ''A'') then count_loop S Q len local_counts
      else
        let index = unat (mut_index s q)
        in if index < length local_counts
           then count_loop S Q len (local_counts[index := local_counts ! index + 1])
           else None)"

definition model_count :: "model \<Rightarrow> string \<Rightarrow> string \<Rightarrow> size_t \<Rightarrow> model option" where
  "model_count MM S Q len =
     (case count_loop S Q (unat len) (replicate MUTCOUNTS 0) of
        None \<Rightarrow> None
      | Some local_counts \<Rightarrow>
          Some (fold (\<lambda>i M. M\<lparr>counts := (counts M)[i := counts M ! i + local_counts ! i]\<rparr>)
                  [0..<MUTCOUNTS] MM))"

text \<open>The sum of the counts as a natural number, without wrap-around.\<close>

definition counts_sum :: "model \<Rightarrow> nat" where
  "counts_sum MM = sum_list (map unat (counts MM))"

text \<open>
  The sum of the six change categories as a natural number, without wrap-around.
\<close>

definition changes_sum :: "model \<Rightarrow> nat" where
  "changes_sum MM =
     sum_list (map (\<lambda>i. unat (counts MM ! i)) [AtoC, AtoG, AtoT, CtoG, CtoT, GtoT])"

text \<open>
  The quotient of two counts as the program computes it: both are converted to
  \<^verbatim>\<open>double\<close> and the quotient of the two doubles is rounded. For counts up to \<open>2 ^ 53\<close> the
  conversions are exact and this is the double nearest to \<open>S / n\<close>.
\<close>

definition double_quot :: "nat \<Rightarrow> nat \<Rightarrow> real" where
  "double_quot S n = rnd_real (rnd_real (real S) / rnd_real (real n))"

text \<open>
  The positions that the loop of \<^verbatim>\<open>model_count\<close> does not skip: both characters are
  at least \<^verbatim>\<open>'A'\<close>.
\<close>

definition counted_pair :: "char \<times> char \<Rightarrow> bool" where
  "counted_pair = (\<lambda>(s, q). \<not> char_lt s (CHR ''A'') \<and> \<not> char_lt q (CHR ''A''))"

definition counted_positions :: "string \<Rightarrow> string \<Rightarrow> size_t \<Rightarrow> nat" where
  "counted_positions S Q len =
     length (filter counted_pair (zip (take (unat len) S) (take (unat len) Q)))"

section \<open>Sample inputs\<close>

text \<open>Three identical positions: a sample of size 3.\<close>

definition kimura_small :: model where
  "kimura_small = \<lparr>counts = [3, 0, 0, 0, 0, 0, 0, 0, 0, 0], seq_len = 3\<rparr>"

text \<open>Four positions, three of them A-C substitutions: the raw distance is 0.75.\<close>

definition jc_saturated :: model where
  "jc_saturated = \<lparr>counts = [1, 3, 0, 0, 0, 0, 0, 0, 0, 0], seq_len = 4\<rparr>"

text \<open>Four positions, all of them A-C substitutions: the raw distance is 1.\<close>

definition all_changed :: model where
  "all_changed = \<lparr>counts = [0, 4, 0, 0, 0, 0, 0, 0, 0, 0], seq_len = 4\<rparr>"

text \<open>One substitution in \<open>2 ^ 60\<close> positions: the raw distance is \<open>1 / 2 ^ 60\<close>.\<close>

definition jc_tiny :: model where
  "jc_tiny =
     \<lparr>counts = [1152921504606846975, 1, 0, 0, 0, 0, 0, 0, 0, 0],
      seq_len = 1152921504606846976\<rparr>"

text \<open>One substitution in \<open>2 ^ 29\<close> positions: the raw distance is \<open>1 / 2 ^ 29\<close>.\<close>

definition jc_small :: model where
  "jc_small = \<lparr>counts = [536870911, 1, 0, 0, 0, 0, 0, 0, 0, 0], seq_len = 536870912\<rparr>"

text \<open>Counts whose sum exceeds \<^verbatim>\<open>SIZE_MAX\<close>: the total wraps around to 4.\<close>

definition wrapped :: model where
  "wrapped = \<lparr>counts = [5, 18446744073709551615, 0, 0, 0, 0, 0, 0, 0, 0], seq_len = 0\<rparr>"

text \<open>A matrix of 4294967296 classified positions (two to the 32), and one of five.\<close>

definition bootstrap_big :: model where
  "bootstrap_big =
     \<lparr>counts = [4294967296, 0, 0, 0, 0, 0, 0, 0, 0, 0], seq_len = 4294967296\<rparr>"

definition bootstrap_small :: model where
  "bootstrap_small = \<lparr>counts = [2, 0, 0, 1, 1, 0, 0, 1, 0, 0], seq_len = 7\<rparr>"

text \<open>
  A sampler that puts all \<^verbatim>\<open>N\<close> trials into the first category: the draw of a
  multinomial distribution that any weights with \<^verbatim>\<open>p[0] > 0\<close> allow.
\<close>

definition first_cell_draw :: "unit multinomial" where
  "first_cell_draw g K N p = (N # replicate (K - 1) 0, g)"

section \<open>Basic facts\<close>

lemmas mut_defs =
  AtoA_def AtoC_def AtoG_def AtoT_def CtoC_def CtoG_def CtoT_def GtoG_def GtoT_def
  TtoT_def MUTCOUNTS_def GtoC_def

lemma upt_MUTCOUNTS: "[0..<MUTCOUNTS] = [0, 1, 2, 3, 4, 5, 6, 7, 8, 9]"
  by (simp add: MUTCOUNTS_def upt_rec)

lemma replicate_MUTCOUNTS: "replicate MUTCOUNTS x = [x, x, x, x, x, x, x, x, x, x]"
  by (simp add: MUTCOUNTS_def eval_nat_numeral)

lemma list10_cases:
  assumes "length xs = MUTCOUNTS"
  obtains c0 c1 c2 c3 c4 c5 c6 c7 c8 c9
  where "xs = [c0, c1, c2, c3, c4, c5, c6, c7, c8, c9]"
  using assms by (auto simp: MUTCOUNTS_def eval_nat_numeral length_Suc_conv)

lemma model_wf_cases:
  assumes "model_wf MM"
  obtains c0 c1 c2 c3 c4 c5 c6 c7 c8 c9
  where "counts MM = [c0, c1, c2, c3, c4, c5, c6, c7, c8, c9]"
  using assms unfolding model_wf_def by (rule list10_cases)

lemma model_empty_eq:
  "model_empty l = \<lparr>counts = [0, 0, 0, 0, 0, 0, 0, 0, 0, 0], seq_len = l\<rparr>"
  by (simp add: model_empty_def replicate_MUTCOUNTS)

lemma counts_model_empty: "counts (model_empty l) = [0, 0, 0, 0, 0, 0, 0, 0, 0, 0]"
  by (simp add: model_empty_eq)

lemma model_wf_empty: "model_wf (model_empty l)"
  by (simp add: model_wf_def counts_model_empty MUTCOUNTS_def)

lemma model_total_list:
  "counts MM = [c0, c1, c2, c3, c4, c5, c6, c7, c8, c9] \<Longrightarrow>
   model_total MM = c0 + c1 + c2 + c3 + c4 + c5 + c6 + c7 + c8 + c9"
  by (simp add: model_total_def upt_MUTCOUNTS)

lemma model_total_sum_list: "model_wf MM \<Longrightarrow> model_total MM = sum_list (counts MM)"
  by (erule model_wf_cases) (simp add: model_total_list add.assoc)

lemma model_sum_SNPs:
  "counts MM = [c0, c1, c2, c3, c4, c5, c6, c7, c8, c9] \<Longrightarrow>
   model_sum MM [AtoC, AtoG, AtoT, CtoG, CtoT, GtoT] = c1 + c2 + c3 + c5 + c6 + c8"
  by (simp add: model_sum_def model_sum_types_def mut_defs)

lemma model_sum_transitions:
  "counts MM = [c0, c1, c2, c3, c4, c5, c6, c7, c8, c9] \<Longrightarrow>
   model_sum MM [AtoG, CtoT] = c2 + c6"
  by (simp add: model_sum_def model_sum_types_def mut_defs)

lemma model_sum_transversions:
  "counts MM = [c0, c1, c2, c3, c4, c5, c6, c7, c8, c9] \<Longrightarrow>
   model_sum MM [AtoC, AtoT, GtoC, GtoT] = c1 + c3 + c5 + c8"
  by (simp add: model_sum_def model_sum_types_def mut_defs)

lemma sum_list_replicate_0: "sum_list (replicate n (0 :: 'a::len word)) = 0"
  by (induction n) simp_all

lemma sum_list_increment:
  fixes xs :: "'a::len word list"
  shows "i < length xs \<Longrightarrow> sum_list (xs[i := xs ! i + d]) = sum_list xs + d"
  by (induction xs arbitrary: i) (auto simp: nth_Cons' split: nat.splits)

lemma unat_sum_list:
  fixes xs :: "'a::len word list"
  shows "sum_list (map unat xs) < 2 ^ LENGTH('a) \<Longrightarrow>
    unat (sum_list xs) = sum_list (map unat xs)"
proof (induction xs)
  case Nil
  then show ?case by simp
next
  case (Cons x xs)
  then have "unat (sum_list xs) = sum_list (map unat xs)"
    by simp
  moreover from Cons.prems have "unat x + sum_list (map unat xs) < 2 ^ LENGTH('a)"
    by simp
  ultimately show ?case
    by (simp add: unat_add_lem [THEN iffD1])
qed

section \<open>Rounding to binary64\<close>

lemma round_even_of_int [simp]: "round_even (of_int k) = k"
  by (simp add: round_even_def)

lemma round_even_ge_floor: "\<lfloor>r\<rfloor> \<le> round_even r"
  by (simp add: round_even_def Let_def)

lemma round_even_le_floor1: "round_even r \<le> \<lfloor>r\<rfloor> + 1"
  by (simp add: round_even_def Let_def)

lemma round_even_mono: "r \<le> s \<Longrightarrow> round_even r \<le> round_even s"
proof -
  assume rs: "r \<le> s"
  then have fl: "\<lfloor>r\<rfloor> \<le> \<lfloor>s\<rfloor>" by (rule floor_mono)
  show ?thesis
  proof (cases "\<lfloor>r\<rfloor> = \<lfloor>s\<rfloor>")
    case True
    with rs show ?thesis
      by (auto simp: round_even_def Let_def)
  next
    case False
    with fl have "\<lfloor>r\<rfloor> + 1 \<le> \<lfloor>s\<rfloor>" by simp
    with round_even_le_floor1 [of r] round_even_ge_floor [of s] show ?thesis
      by linarith
  qed
qed

lemma powi_powr: "(2::real) powi e = 2 powr (of_int e)"
  by (simp add: powr_real_of_int')

lemma expo_eq:
  assumes "x \<noteq> 0" and "2 powi e \<le> \<bar>x\<bar>" and "\<bar>x\<bar> < 2 powi (e + 1)" and "emin \<le> e"
  shows "expo x = e"
proof -
  from assms(1) have "0 < \<bar>x\<bar>" by simp
  then have "\<lfloor>log 2 \<bar>x\<bar>\<rfloor> = e"
    using assms(2,3) by (simp add: floor_log_eq_powr_iff powi_powr)
  with assms(4) show ?thesis
    by (simp add: expo_def)
qed

lemma expo_subnormal:
  assumes "x \<noteq> 0" and "\<bar>x\<bar> < 2 powi (emin)"
  shows "expo x = emin"
proof -
  from assms(1) have pos: "0 < \<bar>x\<bar>" by simp
  have "\<lfloor>log 2 \<bar>x\<bar>\<rfloor> < emin"
  proof -
    have "log 2 \<bar>x\<bar> < of_int (emin)"
      using pos assms(2) by (simp add: log_less_iff powi_powr)
    then show ?thesis
      by (simp add: floor_less_iff)
  qed
  then show ?thesis
    by (simp add: expo_def)
qed

lemma expo_upper: "x \<noteq> 0 \<Longrightarrow> \<bar>x\<bar> < 2 powi (expo x + 1)"
proof -
  assume "x \<noteq> 0"
  then have pos: "0 < \<bar>x\<bar>" by simp
  define k where "k = \<lfloor>log 2 \<bar>x\<bar>\<rfloor>"
  have "\<bar>x\<bar> < 2 powi (k + 1)"
    using pos floor_log_eq_powr_iff [of "\<bar>x\<bar>" 2 k] by (simp add: k_def powi_powr)
  also have "(2::real) powi (k + 1) \<le> 2 powi (expo x + 1)"
    by (rule power_int_increasing) (simp_all add: expo_def k_def)
  finally show ?thesis .
qed

lemma expo_lower: "x \<noteq> 0 \<Longrightarrow> emin < expo x \<Longrightarrow> 2 powi (expo x) \<le> \<bar>x\<bar>"
proof -
  assume "x \<noteq> 0" and e: "emin < expo x"
  then have pos: "0 < \<bar>x\<bar>" by simp
  define k where "k = \<lfloor>log 2 \<bar>x\<bar>\<rfloor>"
  from e have "expo x = k"
    by (simp add: expo_def k_def max_def split: if_splits)
  moreover have "2 powi k \<le> \<bar>x\<bar>"
    using pos floor_log_eq_powr_iff [of "\<bar>x\<bar>" 2 k] by (simp add: k_def powi_powr)
  ultimately show ?thesis by simp
qed

lemma expo_mono: "0 < x \<Longrightarrow> x \<le> y \<Longrightarrow> expo x \<le> expo y"
proof -
  assume "0 < x" "x \<le> y"
  then have "log 2 \<bar>x\<bar> \<le> log 2 \<bar>y\<bar>" by simp
  then have "\<lfloor>log 2 \<bar>x\<bar>\<rfloor> \<le> \<lfloor>log 2 \<bar>y\<bar>\<rfloor>" by (rule floor_mono)
  then show ?thesis by (simp add: expo_def)
qed

lemma ulp_pos: "0 < ulp x"
  by (simp add: ulp_def power_int_def)

lemma rnd_real_0 [simp]: "rnd_real 0 = 0"
  by (simp add: rnd_real_def)

lemma rnd_real_minus: "rnd_real (- x) = - rnd_real x"
  by (simp add: rnd_real_def ulp_def expo_def sgn_minus)

lemma rnd_real_pos: "0 < x \<Longrightarrow> rnd_real x = of_int (round_even (x / ulp x)) * ulp x"
  by (simp add: rnd_real_def)

lemma rnd_real_eval:
  assumes "0 < x" and "2 powi e \<le> x" and "x < 2 powi (e + 1)" and "emin \<le> e"
  shows "rnd_real x = of_int (round_even (x / 2 powi (e - 52))) * 2 powi (e - 52)"
proof -
  from assms have "expo x = e"
    by (intro expo_eq) simp_all
  with assms(1) show ?thesis
    by (simp add: rnd_real_pos ulp_def)
qed

lemma round_even_numeral [simp]: "round_even (numeral k) = numeral k"
  using round_even_of_int [of "numeral k"] by simp

lemma round_even_0 [simp]: "round_even 0 = 0"
  using round_even_of_int [of 0] by simp

lemma round_even_1 [simp]: "round_even 1 = 1"
  using round_even_of_int [of 1] by simp

lemma pow52: "(2::real) powi e = 2 powi (e - 52) * 2 ^ 52"
  by (simp add: power_int_diff)

lemma pow53: "(2::real) powi (e + 1) = 2 powi (e - 52) * 2 ^ 53"
  by (simp add: power_int_diff power_int_add_1)

lemma rnd_real_upper:
  assumes "0 < x"
  shows "rnd_real x \<le> 2 powi (expo x + 1)"
proof -
  from assms have "x < 2 powi (expo x + 1)"
    using expo_upper [of x] by simp
  also have "\<dots> = ulp x * 2 ^ 53"
    unfolding ulp_def by (rule pow53)
  finally have "x / ulp x \<le> of_int (2 ^ 53)"
    using ulp_pos [of x] by (simp add: pos_divide_le_eq mult.commute)
  then have "round_even (x / ulp x) \<le> round_even (of_int (2 ^ 53))"
    by (rule round_even_mono)
  then have "round_even (x / ulp x) \<le> 2 ^ 53"
    by (simp only: round_even_of_int)
  then have "(of_int (round_even (x / ulp x)) :: real) \<le> of_int (2 ^ 53)"
    by (simp only: of_int_le_iff)
  then have "of_int (round_even (x / ulp x)) * ulp x \<le> 2 ^ 53 * ulp x"
    using ulp_pos [of x] by simp
  also have "2 ^ 53 * ulp x = 2 powi (expo x + 1)"
    unfolding ulp_def by (simp only: pow53 [of "expo x"] mult.commute)
  finally show ?thesis
    using assms by (simp only: rnd_real_pos)
qed

lemma rnd_real_nonneg:
  assumes "0 \<le> x"
  shows "0 \<le> rnd_real x"
proof (cases "x = 0")
  case True
  then show ?thesis by simp
next
  case False
  with assms have pos: "0 < x" by simp
  then have "0 \<le> x / ulp x"
    using ulp_pos [of x] by simp
  then have "round_even (of_int 0) \<le> round_even (x / ulp x)"
    by (intro round_even_mono) simp
  then have "0 \<le> round_even (x / ulp x)"
    by (simp only: round_even_of_int)
  then show ?thesis
    using pos ulp_pos [of x] by (simp add: rnd_real_pos)
qed

lemma rnd_real_lower:
  assumes "0 < x" and "emin < expo x"
  shows "2 powi (expo x) \<le> rnd_real x"
proof -
  from assms have "2 powi (expo x) \<le> x"
    using expo_lower [of x] by simp
  moreover have p: "(2::real) powi (expo x) = ulp x * 2 ^ 52"
    unfolding ulp_def by (rule pow52)
  ultimately have "of_int (2 ^ 52) \<le> x / ulp x"
    using ulp_pos [of x] by (simp add: pos_le_divide_eq mult.commute)
  then have "round_even (of_int (2 ^ 52)) \<le> round_even (x / ulp x)"
    by (rule round_even_mono)
  then have "2 ^ 52 \<le> round_even (x / ulp x)"
    by (simp only: round_even_of_int)
  then have "(of_int (2 ^ 52) :: real) \<le> of_int (round_even (x / ulp x))"
    by (simp only: of_int_le_iff)
  then have "2 ^ 52 * ulp x \<le> of_int (round_even (x / ulp x)) * ulp x"
    using ulp_pos [of x] by simp
  then have "2 powi (expo x) \<le> of_int (round_even (x / ulp x)) * ulp x"
    by (simp only: p mult.commute)
  then show ?thesis
    using assms(1) by (simp only: rnd_real_pos)
qed

lemma rnd_real_mono_pos:
  assumes "0 < x" and "x \<le> y"
  shows "rnd_real x \<le> rnd_real y"
proof -
  from assms have y: "0 < y" by simp
  from assms have le: "expo x \<le> expo y" by (rule expo_mono)
  show ?thesis
  proof (cases "expo x = expo y")
    case True
    then have u: "ulp x = ulp y"
      by (simp add: ulp_def)
    from assms(2) have "x / ulp y \<le> y / ulp y"
      using ulp_pos [of y] by (simp add: divide_right_mono)
    then have "round_even (x / ulp y) \<le> round_even (y / ulp y)"
      by (rule round_even_mono)
    then have "(of_int (round_even (x / ulp y)) :: real) * ulp y
        \<le> of_int (round_even (y / ulp y)) * ulp y"
      using ulp_pos [of y] by simp
    with assms(1) y show ?thesis
      by (simp add: rnd_real_pos u)
  next
    case False
    with le have lt: "expo x + 1 \<le> expo y" by simp
    moreover have "emin \<le> expo x"
      by (simp add: expo_def)
    ultimately have "emin < expo y" by simp
    have "rnd_real x \<le> 2 powi (expo x + 1)"
      using assms(1) by (rule rnd_real_upper)
    also have "\<dots> \<le> 2 powi (expo y)"
      using lt by (intro power_int_increasing) simp_all
    also have "\<dots> \<le> rnd_real y"
      using y \<open>emin < expo y\<close> by (rule rnd_real_lower)
    finally show ?thesis .
  qed
qed

lemma rnd_real_mono:
  assumes "0 \<le> x" and "x \<le> y"
  shows "rnd_real x \<le> rnd_real y"
proof (cases "x = 0")
  case True
  with assms show ?thesis
    by (simp add: rnd_real_nonneg)
next
  case False
  with assms show ?thesis
    by (intro rnd_real_mono_pos) simp_all
qed

lemma rnd_real_1 [simp]: "rnd_real 1 = 1"
  using rnd_real_eval [of 1 0] by (simp add: emin_def)

lemma rnd_real_pow2_nat: "rnd_real (2 ^ n) = 2 ^ n"
proof -
  have e: "(2::real) ^ n = 2 powi (int n)" by simp
  have "rnd_real (2 powi (int n)) =
      of_int (round_even (2 powi (int n) / 2 powi (int n - 52))) * 2 powi (int n - 52)"
    by (rule rnd_real_eval) (simp_all add: emin_def power_int_add)
  also have "(2::real) powi (int n) / 2 powi (int n - 52) = of_int (2 ^ 52)"
    by (simp add: power_int_diff)
  finally have "rnd_real (2 powi (int n)) = 2 powi (int n - 52) * 2 ^ 52"
    by (simp only: round_even_of_int) simp
  then show ?thesis
    by (simp only: e pow52 [symmetric])
qed

lemma rnd_real_4_3: "rnd_real (4 / 3) = 6004799503160661 / 4503599627370496"
  using rnd_real_eval [of "4 / 3" 0] by (simp add: emin_def round_even_def)

lemma rnd_real_3_4: "rnd_real (3 / 4) = 3 / 4"
  using rnd_real_eval [of "3 / 4" "- 1"] by (simp add: emin_def round_even_def)

lemma rnd_real_c34: "rnd_real (6004799503160661 / 4503599627370496 * (3 / 4)) = 1"
  using rnd_real_eval [of "6004799503160661 / 4503599627370496 * (3 / 4)" "- 1"]
  by (simp add: emin_def round_even_def)

lemma rnd_real_1_5: "rnd_real (1 / 5) = 3602879701896397 / 18014398509481984"
  using rnd_real_eval [of "1 / 5" "- 3"] by (simp add: emin_def round_even_def)

lemma expo_1: "expo 1 = 0"
  by (rule expo_eq) (simp_all add: emin_def)

lemma expo_pow2_nat: "expo (2 ^ n) = int n"
  using expo_eq [of "2 ^ n" "int n"] by (simp add: emin_def power_int_add)

lemma rnd_real_nat_exact:
  assumes "k \<le> 2 ^ 53"
  shows "rnd_real (real k) = real k"
proof (cases "k = 0")
  case True
  then show ?thesis by simp
next
  case False
  then have pos: "0 < real k" and ge1: "1 \<le> real k"
    by simp_all
  define e where "e = expo (real k)"
  have e0: "0 \<le> e"
    using expo_mono [of 1 "real k"] ge1 by (simp add: e_def expo_1)
  have "real k \<le> 2 ^ 53"
    using assms by (metis of_nat_le_iff of_nat_numeral of_nat_power)
  show ?thesis
  proof (cases "real k = 2 ^ 53")
    case True
    then show ?thesis
      by (simp only: rnd_real_pow2_nat)
  next
    case False
    with \<open>real k \<le> 2 ^ 53\<close> have lt: "real k < 2 ^ 53" by simp
    have e52: "e \<le> 52"
    proof (rule ccontr)
      assume "\<not> e \<le> 52"
      then have "53 \<le> e" by simp
      then have "(2::real) powi 53 \<le> 2 powi e"
        by (intro power_int_increasing) simp_all
      moreover have "emin < e" using e0 by (simp add: emin_def)
      then have "2 powi e \<le> real k"
        using expo_lower [of "real k"] pos by (simp add: e_def)
      ultimately show False using lt by simp
    qed
    define m where "m = nat (52 - e)"
    have u: "ulp (real k) = 1 / 2 ^ m"
    proof -
      have "e - 52 = - int m" using e52 by (simp add: m_def)
      then show ?thesis
        by (simp add: ulp_def e_def [symmetric] power_int_minus_divide)
    qed
    have "real k / ulp (real k) = of_int (int k * 2 ^ m)"
      by (simp add: u)
    then have "round_even (real k / ulp (real k)) = int k * 2 ^ m"
      by (simp only: round_even_of_int)
    then show ?thesis
      using pos by (simp add: rnd_real_pos) (simp add: u)
  qed
qed

lemma rnd_Finite: "\<bar>rnd_real x\<bar> < huge \<Longrightarrow> rnd x = Finite (rnd_real x)"
  by (simp add: rnd_def Let_def)

lemma huge_gt: "2 ^ 64 < huge"
  by (simp add: huge_def)

lemma rnd_small:
  assumes "0 \<le> x" and "x \<le> 2 ^ 64"
  shows "rnd x = Finite (rnd_real x)" and "0 \<le> rnd_real x" and "rnd_real x \<le> 2 ^ 64"
proof -
  show 0: "0 \<le> rnd_real x"
    using assms(1) by (rule rnd_real_nonneg)
  have "rnd_real x \<le> rnd_real (2 ^ 64)"
    using assms by (rule rnd_real_mono)
  then show 1: "rnd_real x \<le> 2 ^ 64"
    by (simp only: rnd_real_pow2_nat)
  from 0 1 huge_gt show "rnd x = Finite (rnd_real x)"
    by (intro rnd_Finite) simp
qed

lemma rnd_0 [simp]: "rnd 0 = Finite 0"
  using rnd_small(1) [of 0] by simp

lemma rnd_1 [simp]: "rnd 1 = Finite 1"
  using rnd_small(1) [of 1] by simp

lemma rnd_neg_small:
  assumes "x \<le> 0" and "- (2 ^ 64) \<le> x"
  shows "rnd x = Finite (- rnd_real (- x))" and "0 \<le> rnd_real (- x)"
proof -
  have "0 \<le> - x" "- x \<le> 2 ^ 64" using assms by simp_all
  note s = rnd_small [OF this]
  show "0 \<le> rnd_real (- x)" by (rule s(2))
  have "rnd_real x = - rnd_real (- x)"
    using rnd_real_minus [of "- x"] by simp
  moreover from s(2,3) huge_gt have "\<bar>- rnd_real (- x)\<bar> < huge" by simp
  ultimately show "rnd x = Finite (- rnd_real (- x))"
    using rnd_Finite [of x] by simp
qed

lemma rnd_real_sat_next:
  "rnd_real (3377699720527873 / 4503599627370496) = 3377699720527873 / 4503599627370496"
  using rnd_real_eval [of "3377699720527873 / 4503599627370496" "- 1"]
  by (simp add: emin_def round_even_def)

lemma rnd_real_c_sat_next:
  "rnd_real (6004799503160661 / 4503599627370496 * (3377699720527873 / 4503599627370496)) =
     4503599627370497 / 4503599627370496"
  using rnd_real_eval
    [of "6004799503160661 / 4503599627370496 * (3377699720527873 / 4503599627370496)" 0]
  by (simp add: emin_def round_even_def)

lemma rnd_real_eps: "rnd_real (1 / 4503599627370496) = 1 / 4503599627370496"
  using rnd_real_eval [of "1 / 4503599627370496" "- 52"]
  by (simp add: emin_def round_even_def)

lemma rnd_real_tiny: "rnd_real (1 / 1152921504606846976) = 1 / 1152921504606846976"
  using rnd_real_eval [of "1 / 1152921504606846976" "- 60"]
  by (simp add: emin_def round_even_def)

lemma rnd_real_c_tiny:
  "rnd_real (6004799503160661 / 4503599627370496 * (1 / 1152921504606846976)) =
     6004799503160661 / 5192296858534827628530496329220096"
  using rnd_real_eval
    [of "6004799503160661 / 4503599627370496 * (1 / 1152921504606846976)" "- 60"]
  by (simp add: emin_def round_even_def)

lemma rnd_real_one_minus_tiny:
  "rnd_real (1 - 6004799503160661 / 5192296858534827628530496329220096) = 1"
  using rnd_real_eval [of "1 - 6004799503160661 / 5192296858534827628530496329220096" "- 1"]
  by (simp add: emin_def round_even_def)

lemma rnd_real_pow29: "rnd_real 536870912 = 536870912"
  using rnd_real_pow2_nat [of 29] by simp

lemma rnd_real_inv29: "rnd_real (1 / 536870912) = 1 / 536870912"
  using rnd_real_eval [of "1 / 536870912" "- 29"]
  by (simp add: emin_def round_even_def)

lemma rnd_real_c_inv29:
  "rnd_real (6004799503160661 / 4503599627370496 * (1 / 536870912)) =
     6004799503160661 / 2417851639229258349412352"
  using rnd_real_eval [of "6004799503160661 / 4503599627370496 * (1 / 536870912)" "- 29"]
  by (simp add: emin_def round_even_def)

lemma rnd_real_one_minus_inv29:
  "rnd_real (1 - 6004799503160661 / 2417851639229258349412352) =
     9007199232371371 / 9007199254740992"
  using rnd_real_eval [of "1 - 6004799503160661 / 2417851639229258349412352" "- 1"]
  by (simp add: emin_def round_even_def)

lemma rnd_real_below_inv29:
  "rnd_real (9007199254740991 / 4835703278458516698824704) =
     9007199254740991 / 4835703278458516698824704"
  using rnd_real_eval [of "9007199254740991 / 4835703278458516698824704" "- 30"]
  by (simp add: emin_def round_even_def)

lemma rnd_real_max_size_t: "rnd_real 18446744073709551615 = 18446744073709551616"
  using rnd_real_eval [of 18446744073709551615 63]
  by (simp add: emin_def round_even_def)

lemma rnd_real_pow60: "rnd_real 1152921504606846976 = 1152921504606846976"
  using rnd_real_pow2_nat [of 60] by simp

lemma rnd_real_pow62: "rnd_real 4611686018427387904 = 4611686018427387904"
  using rnd_real_pow2_nat [of 62] by simp

lemma rnd_exact: "rnd_real x = x \<Longrightarrow> \<bar>x\<bar> \<le> 2 ^ 64 \<Longrightarrow> rnd x = Finite x"
  using rnd_Finite [of x] huge_gt by simp

subsection \<open>The operations on special values and on counts\<close>

lemma dmul_NaN_right [simp]: "dmul a NaN = NaN"
  by (cases a) simp_all

lemma dsub_NaN_right [simp]: "dsub a NaN = NaN"
  by (cases a) simp_all

lemma ddiv_NaN_right [simp]: "ddiv a NaN = NaN"
  by (cases a) simp_all

lemma of_size_t_Finite: "of_size_t n = Finite (rnd_real (real (unat n)))"
proof -
  have "unat n < 2 ^ 64"
    using unsigned_less [of n] by simp
  then have "real (unat n) \<le> 2 ^ 64"
    by (metis less_imp_le of_nat_le_iff of_nat_numeral of_nat_power)
  then show ?thesis
    unfolding of_size_t_def by (intro rnd_small(1)) (simp_all del: of_nat_unat)
qed

lemma rnd_real_unat_ge_1: "n \<noteq> 0 \<Longrightarrow> 1 \<le> rnd_real (real (unat n))"
proof -
  assume "n \<noteq> 0"
  then have "unat n \<noteq> 0"
    by (simp add: unat_eq_0)
  then have "1 \<le> unat n"
    by simp
  then have "1 \<le> real (unat n)"
    by (simp only: of_nat_1 [symmetric, where ?'a = real] of_nat_le_iff)
  then have "rnd_real 1 \<le> rnd_real (real (unat n))"
    by (intro rnd_real_mono) (simp_all del: of_nat_unat)
  then show ?thesis
    by simp
qed

lemma rnd_4_3: "rnd (4 / 3) = Finite (6004799503160661 / 4503599627370496)"
  using rnd_small(1) [of "4 / 3"] by (simp add: rnd_real_4_3)

section \<open>The estimators on small and on saturated samples\<close>

lemma estimate_RAW_small: "model_total MM \<le> 3 \<Longrightarrow> estimate_RAW MM = NaN"
  by (simp add: estimate_RAW_def Let_def)

lemma estimate_RAW_large:
  assumes "3 < model_total MM"
  shows "estimate_RAW MM =
    rnd (rnd_real (real (unat (model_sum MM [AtoC, AtoG, AtoT, CtoG, CtoT, GtoT])))
         / rnd_real (real (unat (model_total MM))))"
proof -
  from assms have n: "model_total MM \<noteq> 0" and "\<not> model_total MM \<le> 3"
    by auto
  moreover have "rnd_real (real (unat (model_total MM))) \<noteq> 0"
    using rnd_real_unat_ge_1 [OF n] by simp
  ultimately show ?thesis
    by (simp add: estimate_RAW_def Let_def of_size_t_Finite del: of_nat_unat)
qed

lemma estimate_JC_NaN: "estimate_RAW MM = NaN \<Longrightarrow> estimate_JC lg MM = NaN"
  by (simp add: estimate_JC_def Let_def)

text \<open>
  \<^verbatim>\<open>estimate_JC\<close> step by step: the product with the rounded \<^verbatim>\<open>4.0 / 3.0\<close>, the
  difference from 1, the logarithm, the product with \<^verbatim>\<open>-0.75\<close> and the clamp.
\<close>

lemma estimate_JC_steps:
  assumes "estimate_RAW MM = r"
    and "dmul (Finite (6004799503160661 / 4503599627370496)) r = x"
    and "dsub (Finite 1) x = y"
    and "dlog lg y = z"
    and "dmul (Finite (- (3 / 4))) z = j"
  shows "estimate_JC lg MM = (if dle j (Finite 0) then Finite 0 else j)"
  unfolding assms(5) [symmetric] assms(4) [symmetric] assms(3) [symmetric]
    assms(2) [symmetric]
  by (simp add: estimate_JC_def Let_def rnd_4_3 assms(1))

text \<open>
  A raw distance of exactly 0.75: the product with the rounded \<^verbatim>\<open>4.0 / 3.0\<close> is
  \<open>1 - 2 ^ (-54)\<close>, half way between two doubles, and rounds to the even one, 1.
\<close>

lemma estimate_JC_at_saturation:
  assumes "estimate_RAW MM = Finite (3 / 4)"
  shows "estimate_JC lg MM = PosInf"
proof -
  have "rnd (6004799503160661 / 4503599627370496 * (3 / 4)) = Finite 1"
    using rnd_Finite [of "6004799503160661 / 4503599627370496 * (3 / 4)"] huge_gt
    by (simp only: rnd_real_c34) simp
  then have x: "dmul (Finite (6004799503160661 / 4503599627370496)) (Finite (3 / 4)) = Finite 1"
    by (simp only: dmul.simps)
  have y: "dsub (Finite 1) (Finite 1) = Finite 0"
    by simp
  have z: "dlog lg (Finite 0) = NegInf"
    by simp
  have j: "dmul (Finite (- (3 / 4))) NegInf = PosInf"
    by simp
  show ?thesis
    by (simp add: estimate_JC_steps [OF assms x y z j])
qed

text \<open>
  A raw distance of at least \<open>0.75 + 2 ^ (-52)\<close>: the rounded product is above 1 and the
  argument of the logarithm is negative.
\<close>

lemma estimate_JC_above_saturation:
  assumes "estimate_RAW MM = Finite d"
    and "3377699720527873 / 4503599627370496 \<le> d" and "d \<le> 1"
  shows "estimate_JC lg MM = NaN"
proof -
  let ?c = "6004799503160661 / 4503599627370496 :: real"
  define v where "v = rnd_real (?c * d)"
  have cd: "0 \<le> ?c * d" "?c * d \<le> 2 ^ 64"
    using assms(2,3) by simp_all
  have x: "rnd (?c * d) = Finite v" and v64: "v \<le> 2 ^ 64"
    using rnd_small(1,3) [OF cd] by (simp_all add: v_def)
  have "rnd_real (?c * (3377699720527873 / 4503599627370496)) \<le> v"
    unfolding v_def using assms(2) by (intro rnd_real_mono) simp_all
  then have v1: "4503599627370497 / 4503599627370496 \<le> v"
    by (simp only: rnd_real_c_sat_next)
  define w where "w = rnd_real (- (1 - v))"
  have y: "rnd (1 - v) = Finite (- w)"
    unfolding w_def using v1 v64 by (intro rnd_neg_small(1)) simp_all
  have "1 / 4503599627370496 \<le> - (1 - v)"
    using v1 by simp
  then have "rnd_real (1 / 4503599627370496) \<le> w"
    unfolding w_def by (intro rnd_real_mono) simp_all
  then have "0 < w"
    by (simp add: rnd_real_eps)
  then have z: "dlog lg (Finite (- w)) = NaN"
    by simp
  have x': "dmul (Finite ?c) (Finite d) = Finite v"
    by (simp only: dmul.simps x)
  have y': "dsub (Finite 1) (Finite v) = Finite (- w)"
    by (simp only: dsub.simps y)
  have j: "dmul (Finite (- (3 / 4))) NaN = NaN"
    by simp
  show ?thesis
    by (simp add: estimate_JC_steps [OF assms(1) x' y' z j])
qed

lemma kimura_small_counts: "counts kimura_small = [3, 0, 0, 0, 0, 0, 0, 0, 0, 0]"
  by (simp add: kimura_small_def)

lemma kimura_small_total: "model_total kimura_small = 3"
  by (simp add: model_total_list [OF kimura_small_counts])

text \<open>
  Claim C1. For every matrix with a total of at most 3, \<^verbatim>\<open>estimate_RAW\<close> returns \<^verbatim>\<open>NAN\<close>,
  and \<^verbatim>\<open>estimate_JC\<close> and \<^verbatim>\<open>estimate_KIMURA\<close> return \<^verbatim>\<open>NAN\<close> as well. The code does so
  for \<^verbatim>\<open>estimate_RAW\<close> and, through it, for \<^verbatim>\<open>estimate_JC\<close>; \<^verbatim>\<open>estimate_KIMURA\<close> computes
  its ratios from the counts without the test on the sample size. On three identical
  positions the total is 3, the first two estimators return \<^verbatim>\<open>NAN\<close>, and
  \<^verbatim>\<open>estimate_KIMURA\<close> returns 0: both ratios are \<^verbatim>\<open>0.0 / 3.0\<close>, the argument of the
  logarithm is 1, and the clamp turns \<^verbatim>\<open>-0.25 * 0.0\<close> into \<^verbatim>\<open>0.0\<close>.
\<close>

theorem estimate_KIMURA_small_sample:
  "model_wf kimura_small \<and> model_total kimura_small = 3
   \<and> estimate_RAW kimura_small = NaN \<and> estimate_JC lg kimura_small = NaN
   \<and> estimate_KIMURA lg kimura_small = Finite 0"
proof -
  have 3: "rnd_real 3 = 3"
    using rnd_real_nat_exact [of 3] by simp
  have k: "estimate_KIMURA lg kimura_small = Finite 0"
    by (simp add: estimate_KIMURA_def Let_def kimura_small_total of_size_t_Finite 3
        model_sum_transitions [OF kimura_small_counts]
        model_sum_transversions [OF kimura_small_counts])
  have "model_wf kimura_small"
    by (simp add: model_wf_def kimura_small_counts MUTCOUNTS_def)
  with k show ?thesis
    by (simp add: kimura_small_total estimate_RAW_small estimate_JC_NaN)
qed

text \<open>
  The part of C1 that the code keeps, for every matrix: a total of at most 3 makes
  \<^verbatim>\<open>estimate_RAW\<close> return \<^verbatim>\<open>NAN\<close>, and \<^verbatim>\<open>estimate_JC\<close> passes it on.
\<close>

theorem small_sample_RAW_JC:
  "model_total MM \<le> 3 \<Longrightarrow> estimate_RAW MM = NaN \<and> estimate_JC lg MM = NaN"
  by (simp add: estimate_RAW_small estimate_JC_NaN)

theorem small_sample_RAW_JC_witness:
  "model_total (model_empty 7) \<le> 3
   \<and> estimate_RAW (model_empty 7) = NaN \<and> estimate_JC ln (model_empty 7) = NaN"
proof -
  have "model_total (model_empty 7) \<le> 3"
    by (simp add: model_total_list [OF counts_model_empty])
  with small_sample_RAW_JC [of "model_empty 7" ln] show ?thesis
    by simp
qed

section \<open>The range of the raw distance\<close>

lemma unat_model_total:
  assumes "model_wf MM" and "counts_sum MM < 2 ^ 64"
  shows "unat (model_total MM) = counts_sum MM"
  using assms unat_sum_list [of "counts MM"]
  by (simp add: model_total_sum_list counts_sum_def)

lemma unat_model_sum_SNPs:
  assumes "model_wf MM" and "counts_sum MM < 2 ^ 64"
  shows "unat (model_sum MM [AtoC, AtoG, AtoT, CtoG, CtoT, GtoT]) = changes_sum MM"
    and "changes_sum MM \<le> counts_sum MM"
proof -
  from assms(1) obtain c0 c1 c2 c3 c4 c5 c6 c7 c8 c9
    where c: "counts MM = [c0, c1, c2, c3, c4, c5, c6, c7, c8, c9]"
    by (rule model_wf_cases)
  have ch: "changes_sum MM = sum_list (map unat [c1, c2, c3, c5, c6, c8])"
    by (simp add: changes_sum_def c mut_defs)
  have cs: "counts_sum MM = sum_list (map unat [c0, c1, c2, c3, c4, c5, c6, c7, c8, c9])"
    by (simp add: counts_sum_def c)
  from ch cs show le: "changes_sum MM \<le> counts_sum MM"
    by simp
  with assms(2) have "sum_list (map unat [c1, c2, c3, c5, c6, c8]) < 2 ^ 64"
    by (simp only: ch)
  then have "unat (sum_list [c1, c2, c3, c5, c6, c8]) =
      sum_list (map unat [c1, c2, c3, c5, c6, c8])"
    using unat_sum_list [of "[c1, c2, c3, c5, c6, c8]"] by simp
  then show "unat (model_sum MM [AtoC, AtoG, AtoT, CtoG, CtoT, GtoT]) = changes_sum MM"
    by (simp add: model_sum_SNPs [OF c] ch add.assoc)
qed

text \<open>
  On counts that add up without wrap-around and to more than 3, the raw distance is the
  quotient of the two sums in binary64, a double between 0 and 1.
\<close>

lemma estimate_RAW_quot:
  assumes "model_wf MM" and "counts_sum MM < 2 ^ 64" and "3 < model_total MM"
  shows "estimate_RAW MM = Finite (double_quot (changes_sum MM) (counts_sum MM))"
    and "0 \<le> double_quot (changes_sum MM) (counts_sum MM)"
    and "double_quot (changes_sum MM) (counts_sum MM) \<le> 1"
proof -
  let ?S = "rnd_real (real (changes_sum MM))"
  let ?n = "rnd_real (real (counts_sum MM))"
  from assms(3) have "model_total MM \<noteq> 0"
    by auto
  then have "1 \<le> rnd_real (real (unat (model_total MM)))"
    by (rule rnd_real_unat_ge_1)
  then have n1: "1 \<le> ?n"
    by (simp only: unat_model_total [OF assms(1,2)])
  have S0: "0 \<le> ?S"
    by (intro rnd_real_nonneg) simp
  have Sn: "?S \<le> ?n"
    using unat_model_sum_SNPs(2) [OF assms(1,2)] by (intro rnd_real_mono) simp_all
  from n1 S0 Sn have q: "0 \<le> ?S / ?n" "?S / ?n \<le> 1"
    by simp_all
  show 0: "0 \<le> double_quot (changes_sum MM) (counts_sum MM)"
    unfolding double_quot_def using q(1) by (rule rnd_real_nonneg)
  have "rnd_real (?S / ?n) \<le> rnd_real 1"
    using q by (rule rnd_real_mono)
  then show 1: "double_quot (changes_sum MM) (counts_sum MM) \<le> 1"
    by (simp add: double_quot_def)
  have "rnd (?S / ?n) = Finite (rnd_real (?S / ?n))"
    using q by (intro rnd_small(1)) simp_all
  then show "estimate_RAW MM = Finite (double_quot (changes_sum MM) (counts_sum MM))"
    by (simp only: estimate_RAW_large [OF assms(3)] unat_model_total [OF assms(1,2)]
        unat_model_sum_SNPs(1) [OF assms(1,2)] double_quot_def)
qed

lemma jc_saturated_RAW: "estimate_RAW jc_saturated = Finite (3 / 4)"
proof -
  have c: "counts jc_saturated = [1, 3, 0, 0, 0, 0, 0, 0, 0, 0]"
    by (simp add: jc_saturated_def)
  have t: "model_total jc_saturated = 4"
    by (simp add: model_total_list [OF c])
  have 3: "rnd_real 3 = 3" and 4: "rnd_real 4 = 4"
    using rnd_real_nat_exact [of 3] rnd_real_nat_exact [of 4] by simp_all
  have "estimate_RAW jc_saturated = rnd (3 / 4)"
    using estimate_RAW_large [of jc_saturated] by (simp add: t model_sum_SNPs [OF c] 3 4)
  also have "\<dots> = Finite (3 / 4)"
    by (rule rnd_exact) (simp_all add: rnd_real_3_4)
  finally show ?thesis .
qed

lemma jc_saturated_facts:
  "model_wf jc_saturated" "counts_sum jc_saturated = 4" "changes_sum jc_saturated = 3"
  "model_total jc_saturated = 4"
  by (simp_all add: model_wf_def jc_saturated_def counts_sum_def changes_sum_def mut_defs
      model_total_list [of _ 1 3 0 0 0 0 0 0 0 0])

lemma all_changed_facts:
  "model_wf all_changed" "counts_sum all_changed = 4" "changes_sum all_changed = 4"
  "model_total all_changed = 4"
  by (simp_all add: model_wf_def all_changed_def counts_sum_def changes_sum_def mut_defs
      model_total_list [of _ 0 4 0 0 0 0 0 0 0 0])

text \<open>
  With three substitutions in four positions the raw distance is exactly 0.75, the
  product \<^verbatim>\<open>(4.0 / 3.0) * dist\<close> rounds to 1, the argument of the logarithm is 0, \<^verbatim>\<open>log\<close>
  returns minus infinity and \<^verbatim>\<open>estimate_JC\<close> returns plus infinity, which the test
  \<^verbatim>\<open>dist <= 0.0\<close> lets through.
\<close>

theorem estimate_JC_saturated_counterexample:
  "model_wf jc_saturated \<and> 3 < model_total jc_saturated
   \<and> estimate_RAW jc_saturated = Finite 0.75
   \<and> estimate_JC ln jc_saturated = PosInf \<and> estimate_JC ln jc_saturated \<noteq> NaN"
  using estimate_JC_at_saturation [OF jc_saturated_RAW, of ln] jc_saturated_RAW
  by (simp add: jc_saturated_facts)

text \<open>
  Claim C2, amended. For every matrix with a total above 3 whose counts sum to at most
  \<open>2 ^ 50\<close> and whose raw distance \<open>S / n\<close> is at least 0.75, the result of
  \<^verbatim>\<open>estimate_JC\<close> is \<^verbatim>\<open>NAN\<close> when \<open>S / n\<close> is above 0.75 and plus infinity when it is
  exactly 0.75, whatever the \<^verbatim>\<open>log\<close> of the C library returns on other arguments.
\<close>

theorem estimate_JC_saturated:
  assumes "model_wf MM" and "counts_sum MM \<le> 2 ^ 50" and "3 < model_total MM"
    and "3 / 4 \<le> real (changes_sum MM) / real (counts_sum MM)"
  shows "estimate_JC lg MM =
    (if real (changes_sum MM) / real (counts_sum MM) = 3 / 4 then PosInf else NaN)"
proof -
  let ?S = "changes_sum MM" and ?n = "counts_sum MM"
  from assms(2) have n64: "?n < 2 ^ 64" and n53: "?n \<le> 2 ^ 53"
    by simp_all
  have Sn: "?S \<le> ?n"
    by (rule unat_model_sum_SNPs(2) [OF assms(1) n64])
  with n53 have S53: "?S \<le> 2 ^ 53"
    by simp
  from assms(3) have "model_total MM \<noteq> 0"
    by auto
  then have npos: "0 < ?n"
    using unat_model_total [OF assms(1) n64] by (simp add: unat_eq_0 [symmetric])
  have q1: "real ?S / real ?n \<le> 1"
    using Sn npos by simp
  have raw: "estimate_RAW MM = Finite (rnd_real (real ?S / real ?n))"
    using estimate_RAW_quot(1) [OF assms(1) n64 assms(3)]
    by (simp only: double_quot_def rnd_real_nat_exact [OF S53] rnd_real_nat_exact [OF n53])
  show ?thesis
  proof (cases "real ?S / real ?n = 3 / 4")
    case True
    with raw have "estimate_RAW MM = Finite (3 / 4)"
      by (simp only: rnd_real_3_4)
    with True show ?thesis
      by (simp add: estimate_JC_at_saturation)
  next
    case False
    with assms(4) have "3 / 4 < real ?S / real ?n"
      by simp
    then have "3 * real ?n < 4 * real ?S"
      using npos by (simp add: pos_less_divide_eq)
    then have "3 * ?n < 4 * ?S"
      by (metis (mono_tags) of_nat_less_iff of_nat_mult of_nat_numeral)
    then have "3 * ?n + 1 \<le> 4 * ?S"
      by simp
    then have "3 * real ?n + 1 \<le> 4 * real ?S"
      by (metis (mono_tags) of_nat_le_iff of_nat_add of_nat_mult of_nat_numeral of_nat_1)
    moreover have "real ?n \<le> 2 ^ 50"
      using assms(2) by (metis of_nat_le_iff of_nat_numeral of_nat_power)
    ultimately have "3377699720527873 / 4503599627370496 * real ?n \<le> real ?S"
      by simp
    then have lo: "3377699720527873 / 4503599627370496 \<le> real ?S / real ?n"
      using npos by (simp add: pos_le_divide_eq)
    have "rnd_real (3377699720527873 / 4503599627370496) \<le> rnd_real (real ?S / real ?n)"
      using lo by (intro rnd_real_mono) simp_all
    then have d_lo: "3377699720527873 / 4503599627370496 \<le> rnd_real (real ?S / real ?n)"
      by (simp only: rnd_real_sat_next)
    have "rnd_real (real ?S / real ?n) \<le> rnd_real 1"
      using q1 lo by (intro rnd_real_mono) simp_all
    then have d_hi: "rnd_real (real ?S / real ?n) \<le> 1"
      by simp
    from False show ?thesis
      by (simp add: estimate_JC_above_saturation [OF raw d_lo d_hi])
  qed
qed

theorem estimate_JC_saturated_witness:
  "model_wf all_changed \<and> counts_sum all_changed \<le> 2 ^ 50 \<and> 3 < model_total all_changed
   \<and> 3 / 4 \<le> real (changes_sum all_changed) / real (counts_sum all_changed)
   \<and> estimate_JC ln all_changed = NaN
   \<and> model_wf jc_saturated \<and> counts_sum jc_saturated \<le> 2 ^ 50
   \<and> 3 < model_total jc_saturated
   \<and> 3 / 4 \<le> real (changes_sum jc_saturated) / real (counts_sum jc_saturated)
   \<and> estimate_JC ln jc_saturated = PosInf"
  using estimate_JC_saturated [of all_changed ln] estimate_JC_saturated [of jc_saturated ln]
  by (simp add: all_changed_facts jc_saturated_facts)

text \<open>
  When every classified position is a substitution the raw distance is 1, which is not
  in the half-open interval.
\<close>

theorem estimate_RAW_range_counterexample:
  "model_wf all_changed \<and> 3 < model_total all_changed \<and> estimate_RAW all_changed = Finite 1"
proof -
  have 4: "rnd_real 4 = 4"
    using rnd_real_nat_exact [of 4] by simp
  have "estimate_RAW all_changed = Finite (double_quot 4 4)"
    using estimate_RAW_quot(1) [of all_changed] by (simp add: all_changed_facts)
  then show ?thesis
    by (simp add: double_quot_def 4 all_changed_facts)
qed

text \<open>
  Claim C4, amended. For every matrix whose counts add up without wrap-around (as they
  do under the invariant that their sum is at most the reference length): if the total
  is at most 3 then \<^verbatim>\<open>estimate_RAW\<close> returns \<^verbatim>\<open>NAN\<close>; otherwise it returns \<open>S / n\<close> as
  binary64 computes it, where \<open>S\<close> is the sum of the six change categories and \<open>n\<close> the
  sum of all ten counts, and this value lies in the closed interval from 0 to 1. As
  long as \<open>n\<close> is at most \<open>2 ^ 53\<close> it is the double nearest to the quotient \<open>S / n\<close>.
\<close>

theorem estimate_RAW_range:
  assumes "model_wf MM" and "counts_sum MM < 2 ^ 64"
  shows "(model_total MM \<le> 3 \<longrightarrow> estimate_RAW MM = NaN)
    \<and> (3 < model_total MM \<longrightarrow>
         estimate_RAW MM = Finite (double_quot (changes_sum MM) (counts_sum MM))
         \<and> 0 \<le> double_quot (changes_sum MM) (counts_sum MM)
         \<and> double_quot (changes_sum MM) (counts_sum MM) \<le> 1
         \<and> (counts_sum MM \<le> 2 ^ 53 \<longrightarrow>
              double_quot (changes_sum MM) (counts_sum MM) =
                rnd_real (real (changes_sum MM) / real (counts_sum MM))))"
proof -
  have "double_quot (changes_sum MM) (counts_sum MM) =
      rnd_real (real (changes_sum MM) / real (counts_sum MM))"
    if n: "counts_sum MM \<le> 2 ^ 53"
  proof -
    from unat_model_sum_SNPs(2) [OF assms] n have "changes_sum MM \<le> 2 ^ 53"
      by simp
    then show ?thesis
      by (simp only: double_quot_def rnd_real_nat_exact [OF n] rnd_real_nat_exact)
  qed
  with estimate_RAW_quot [OF assms] show ?thesis
    by (simp add: estimate_RAW_small)
qed

theorem estimate_RAW_range_witness:
  "model_wf all_changed \<and> counts_sum all_changed < 2 ^ 64 \<and> 3 < model_total all_changed
   \<and> estimate_RAW all_changed = Finite 1
   \<and> model_wf (model_empty 0) \<and> counts_sum (model_empty 0) < 2 ^ 64
   \<and> model_total (model_empty 0) \<le> 3 \<and> estimate_RAW (model_empty 0) = NaN"
proof -
  have 1: "model_wf all_changed" "counts_sum all_changed < 2 ^ 64"
    by (simp_all add: all_changed_facts)
  have 2: "model_wf (model_empty 0)" "counts_sum (model_empty 0) < 2 ^ 64"
    by (simp_all add: model_wf_empty counts_sum_def counts_model_empty)
  have 3: "model_total (model_empty 0) = 0"
    by (simp add: model_total_list [OF counts_model_empty])
  have 4: "rnd_real 4 = 4"
    using rnd_real_nat_exact [of 4] by simp
  show ?thesis
    using estimate_RAW_range [OF 1] estimate_RAW_range [OF 2] 1 2
    by (simp add: 3 all_changed_facts)
qed

text \<open>
  Without the condition on the sum the quotient is not bounded by 1: the counts of
  \<open>wrapped\<close> add up to 4 modulo \<open>2 ^ 64\<close>, while the sum of its change categories is
  \<open>2 ^ 64 - 1\<close>, which the conversion rounds to \<open>2 ^ 64\<close>.
\<close>

lemma estimate_RAW_wrapped:
  "model_total wrapped = 4 \<and> estimate_RAW wrapped = Finite 4611686018427387904"
proof -
  have c: "counts wrapped = [5, 18446744073709551615, 0, 0, 0, 0, 0, 0, 0, 0]"
    by (simp add: wrapped_def)
  have t: "model_total wrapped = 4"
    by (simp add: model_total_list [OF c])
  have 4: "rnd_real 4 = 4"
    using rnd_real_nat_exact [of 4] by simp
  have "estimate_RAW wrapped = rnd 4611686018427387904"
    using estimate_RAW_large [of wrapped]
    by (simp add: t model_sum_SNPs [OF c] 4 rnd_real_max_size_t)
  also have "\<dots> = Finite 4611686018427387904"
    by (rule rnd_exact) (simp_all add: rnd_real_pow62)
  finally show ?thesis
    using t by simp
qed

section \<open>Merging two matrices\<close>

lemma counts_model_average:
  "counts MM = [a0, a1, a2, a3, a4, a5, a6, a7, a8, a9] \<Longrightarrow>
   counts NN = [b0, b1, b2, b3, b4, b5, b6, b7, b8, b9] \<Longrightarrow>
   counts (model_average MM NN) =
     [a0 + b0, a1 + b1, a2 + b2, a3 + b3, a4 + b4, a5 + b5, a6 + b6, a7 + b7, a8 + b8, a9 + b9]"
  by (simp add: model_average_def upt_MUTCOUNTS)

text \<open>
  Claim C6. For all matrices \<open>A\<close> and \<open>B\<close> (with the ten cells of the C array), the total
  of \<open>model_average A B\<close> is the sum of the two totals in \<^verbatim>\<open>size_t\<close> arithmetic, and
  \<open>model_average\<close> is commutative and associative on the counts. The function returns a
  new matrix; its arguments are values and stay as they are.
\<close>

theorem model_average_total_comm_assoc:
  assumes "model_wf A" and "model_wf B" and "model_wf C"
  shows "model_total (model_average A B) = model_total A + model_total B
    \<and> counts (model_average A B) = counts (model_average B A)
    \<and> counts (model_average (model_average A B) C) =
        counts (model_average A (model_average B C))"
proof -
  from assms(1) obtain a0 a1 a2 a3 a4 a5 a6 a7 a8 a9
    where A: "counts A = [a0, a1, a2, a3, a4, a5, a6, a7, a8, a9]"
    by (rule model_wf_cases)
  from assms(2) obtain b0 b1 b2 b3 b4 b5 b6 b7 b8 b9
    where B: "counts B = [b0, b1, b2, b3, b4, b5, b6, b7, b8, b9]"
    by (rule model_wf_cases)
  from assms(3) obtain c0 c1 c2 c3 c4 c5 c6 c7 c8 c9
    where C: "counts C = [c0, c1, c2, c3, c4, c5, c6, c7, c8, c9]"
    by (rule model_wf_cases)
  note AB = counts_model_average [OF A B]
  note BA = counts_model_average [OF B A]
  note BC = counts_model_average [OF B C]
  have 1: "model_total (model_average A B) = model_total A + model_total B"
    by (simp add: model_total_list [OF AB] model_total_list [OF A] model_total_list [OF B])
  have 2: "counts (model_average A B) = counts (model_average B A)"
    by (simp add: AB BA add.commute)
  have 3: "counts (model_average (model_average A B) C) =
      counts (model_average A (model_average B C))"
    by (simp add: counts_model_average [OF AB C] counts_model_average [OF A BC] add.assoc)
  from 1 2 3 show ?thesis by simp
qed

theorem model_average_total_comm_assoc_witness:
  "model_wf \<lparr>counts = [1, 2, 3, 4, 5, 6, 7, 8, 9, 10], seq_len = 60\<rparr>
   \<and> model_wf \<lparr>counts = [5, 0, 1, 0, 5, 0, 0, 5, 2, 5], seq_len = 30\<rparr>
   \<and> model_wf \<lparr>counts = [0, 0, 0, 0, 0, 0, 0, 0, 0, 18446744073709551615], seq_len = 0\<rparr>
   \<and> model_total (model_average \<lparr>counts = [1, 2, 3, 4, 5, 6, 7, 8, 9, 10], seq_len = 60\<rparr>
         \<lparr>counts = [5, 0, 1, 0, 5, 0, 0, 5, 2, 5], seq_len = 30\<rparr>) = 78
   \<and> counts (model_average
         (model_average \<lparr>counts = [1, 2, 3, 4, 5, 6, 7, 8, 9, 10], seq_len = 60\<rparr>
            \<lparr>counts = [5, 0, 1, 0, 5, 0, 0, 5, 2, 5], seq_len = 30\<rparr>)
         \<lparr>counts = [0, 0, 0, 0, 0, 0, 0, 0, 0, 18446744073709551615], seq_len = 0\<rparr>) =
       [6, 2, 4, 4, 10, 6, 7, 13, 11, 14]"
  using model_average_total_comm_assoc
    [of "\<lparr>counts = [1, 2, 3, 4, 5, 6, 7, 8, 9, 10], seq_len = 60\<rparr>"
        "\<lparr>counts = [5, 0, 1, 0, 5, 0, 0, 5, 2, 5], seq_len = 30\<rparr>"
        "\<lparr>counts = [0, 0, 0, 0, 0, 0, 0, 0, 0, 18446744073709551615], seq_len = 0\<rparr>"]
  by (simp add: model_wf_def MUTCOUNTS_def model_total_def model_average_def upt_rec)

section \<open>Bootstrapping keeps the total below \<open>2 ^ 32\<close>\<close>

lemma ucast_ucast_small:
  fixes w :: size_t
  assumes "w < 2 ^ 32"
  shows "ucast (ucast w :: uint) = w"
proof -
  from assms have "unat w < 2 ^ 32"
    by (simp add: word_less_nat_alt)
  then have "unat (ucast (ucast w :: uint) :: size_t) = unat w"
    by (simp add: unsigned_ucast_eq unsigned_take_bit_eq take_bit_nat_eq_self)
  then show ?thesis
    by (simp only: word_unat_eq_iff)
qed

lemma sum_list_ucast:
  fixes n :: "uint list"
  shows "sum_list (map ucast n) = (of_nat (sum_list (map unat n)) :: size_t)"
  by (induction n) simp_all

lemma model_bootstrap_counts:
  assumes "counts MM = [a0, a1, a2, a3, a4, a5, a6, a7, a8, a9]"
    and "fst (f RNG MUTCOUNTS (ucast (model_total MM))
           (map (\<lambda>i. ddiv (of_size_t (counts MM ! i)) (of_size_t (model_total MM)))
              [0..<MUTCOUNTS])) =
         [n0, n1, n2, n3, n4, n5, n6, n7, n8, n9]"
  shows "fst (model_bootstrap f RNG MM) =
     MM\<lparr>counts := map ucast [n0, n1, n2, n3, n4, n5, n6, n7, n8, n9]\<rparr>"
  using assms(2) unfolding model_bootstrap_def Let_def
  by (simp add: split_beta) (simp add: upt_MUTCOUNTS assms(1))

lemma valid_first_cell_draw: "valid_draw first_cell_draw"
  by (simp add: valid_draw_def first_cell_draw_def MUTCOUNTS_def sum_list_replicate_0)

text \<open>
  The call passes the \<^verbatim>\<open>size_t\<close> total to a parameter of type \<^verbatim>\<open>unsigned int\<close>. For a
  matrix of \<open>2 ^ 32\<close> positions the sampler is asked for 0 trials, and every valid draw
  gives a matrix whose total is 0.
\<close>

theorem model_bootstrap_total_counterexample:
  "model_wf bootstrap_big \<and> valid_draw first_cell_draw \<and> 0 < model_total bootstrap_big
   \<and> model_total bootstrap_big = 4294967296
   \<and> model_total (fst (model_bootstrap first_cell_draw () bootstrap_big)) = 0"
proof -
  have c: "counts bootstrap_big = [4294967296, 0, 0, 0, 0, 0, 0, 0, 0, 0]"
    by (simp add: bootstrap_big_def)
  have wf: "model_wf bootstrap_big"
    by (simp add: model_wf_def c MUTCOUNTS_def)
  have t: "model_total bootstrap_big = 4294967296"
    by (simp add: model_total_list [OF c])
  have N: "(ucast (4294967296 :: size_t) :: uint) = 0"
    by simp
  have "fst (model_bootstrap first_cell_draw () bootstrap_big) =
      bootstrap_big\<lparr>counts := map ucast [0 :: uint, 0, 0, 0, 0, 0, 0, 0, 0, 0]\<rparr>"
    by (rule model_bootstrap_counts [where f = first_cell_draw and RNG = "()", OF c])
      (simp add: first_cell_draw_def t N, simp add: MUTCOUNTS_def eval_nat_numeral)
  then have "model_total (fst (model_bootstrap first_cell_draw () bootstrap_big)) = 0"
    by (simp add: model_total_list [of _ 0 0 0 0 0 0 0 0 0 0])
  with wf t valid_first_cell_draw show ?thesis
    by simp
qed

lemma model_bootstrap_total_sum:
  assumes "model_wf MM"
    and "length (fst (f RNG MUTCOUNTS (ucast (model_total MM))
           (map (\<lambda>i. ddiv (of_size_t (counts MM ! i)) (of_size_t (model_total MM)))
              [0..<MUTCOUNTS]))) = MUTCOUNTS"
  shows "model_total (fst (model_bootstrap f RNG MM)) =
      of_nat (sum_list (map unat (fst (f RNG MUTCOUNTS (ucast (model_total MM))
           (map (\<lambda>i. ddiv (of_size_t (counts MM ! i)) (of_size_t (model_total MM)))
              [0..<MUTCOUNTS])))))"
    and "seq_len (fst (model_bootstrap f RNG MM)) = seq_len MM"
proof -
  let ?N = "ucast (model_total MM) :: uint"
  let ?p = "map (\<lambda>i. ddiv (of_size_t (counts MM ! i)) (of_size_t (model_total MM)))
    [0..<MUTCOUNTS]"
  let ?n = "fst (f RNG MUTCOUNTS ?N ?p)"
  from assms(1) obtain a0 a1 a2 a3 a4 a5 a6 a7 a8 a9
    where a: "counts MM = [a0, a1, a2, a3, a4, a5, a6, a7, a8, a9]"
    by (rule model_wf_cases)
  from assms(2) obtain n0 n1 n2 n3 n4 n5 n6 n7 n8 n9
    where n: "?n = [n0, n1, n2, n3, n4, n5, n6, n7, n8, n9]"
    by (rule list10_cases)
  note b = model_bootstrap_counts [where f = f and RNG = RNG, OF a n]
  have wf: "model_wf (fst (model_bootstrap f RNG MM))"
    by (simp add: b model_wf_def MUTCOUNTS_def)
  have "model_total (fst (model_bootstrap f RNG MM)) = sum_list (map ucast ?n)"
    by (simp add: model_total_sum_list [OF wf]) (simp add: b n)
  then show "model_total (fst (model_bootstrap f RNG MM)) = of_nat (sum_list (map unat ?n))"
    by (simp only: sum_list_ucast)
  show "seq_len (fst (model_bootstrap f RNG MM)) = seq_len MM"
    by (simp add: b)
qed

text \<open>
  Claim C5, amended. For every matrix \<open>MM\<close> with a total above 0 and below \<open>2 ^ 32\<close>
  (the range of the \<^verbatim>\<open>unsigned int\<close> that the sampler takes) and every valid random source,
  \<^verbatim>\<open>model_bootstrap\<close> returns a matrix with the total of \<open>MM\<close> and the reference length of
  \<open>MM\<close>. The matrix is passed by value: the function cannot change the caller's copy.
\<close>

theorem model_bootstrap_total:
  assumes "model_wf MM" and "valid_draw f"
    and "0 < model_total MM" and "model_total MM < 2 ^ 32"
  shows "model_total (fst (model_bootstrap f RNG MM)) = model_total MM
    \<and> seq_len (fst (model_bootstrap f RNG MM)) = seq_len MM"
proof -
  let ?N = "ucast (model_total MM) :: uint"
  let ?p = "map (\<lambda>i. ddiv (of_size_t (counts MM ! i)) (of_size_t (model_total MM)))
    [0..<MUTCOUNTS]"
  let ?n = "fst (f RNG MUTCOUNTS ?N ?p)"
  from assms(2) have len: "length ?n = MUTCOUNTS"
    and sum: "sum_list (map unat ?n) = unat ?N"
    by (simp_all add: valid_draw_def)
  have "model_total (fst (model_bootstrap f RNG MM)) = of_nat (unat ?N)"
    by (simp only: model_bootstrap_total_sum(1) [where f = f and RNG = RNG, OF assms(1) len] sum)
  also have "\<dots> = ucast ?N"
    by simp
  also have "\<dots> = model_total MM"
    by (rule ucast_ucast_small [OF assms(4)])
  finally show ?thesis
    by (simp add: model_bootstrap_total_sum(2) [where f = f and RNG = RNG, OF assms(1) len])
qed

theorem model_bootstrap_total_witness:
  "model_wf bootstrap_small \<and> valid_draw first_cell_draw \<and> 0 < model_total bootstrap_small
   \<and> model_total bootstrap_small < 2 ^ 32
   \<and> model_total (fst (model_bootstrap first_cell_draw () bootstrap_small)) = 5
   \<and> seq_len (fst (model_bootstrap first_cell_draw () bootstrap_small)) = 7"
proof -
  have c: "counts bootstrap_small = [2, 0, 0, 1, 1, 0, 0, 1, 0, 0]"
    by (simp add: bootstrap_small_def)
  have wf: "model_wf bootstrap_small"
    by (simp add: model_wf_def c MUTCOUNTS_def)
  have t: "model_total bootstrap_small = 5"
    by (simp add: model_total_list [OF c])
  have h: "0 < model_total bootstrap_small" "model_total bootstrap_small < 2 ^ 32"
    by (simp_all add: t)
  from model_bootstrap_total [OF wf valid_first_cell_draw h, of "()"]
    wf valid_first_cell_draw h
  show ?thesis
    by (simp add: t) (simp add: bootstrap_small_def)
qed

text \<open>
  Whatever the size of the total: when the ten counts that the sampler returns to the
  call sum to the total of \<open>MM\<close> itself, the result has that total and the reference
  length of \<open>MM\<close>.
\<close>

theorem model_bootstrap_total_of_draw:
  assumes "model_wf MM"
    and "fst (f RNG MUTCOUNTS (ucast (model_total MM))
           (map (\<lambda>i. ddiv (of_size_t (counts MM ! i)) (of_size_t (model_total MM)))
              [0..<MUTCOUNTS])) = n"
    and "length n = MUTCOUNTS"
    and "sum_list (map unat n) = unat (model_total MM)"
  shows "model_total (fst (model_bootstrap f RNG MM)) = model_total MM
    \<and> seq_len (fst (model_bootstrap f RNG MM)) = seq_len MM"
proof -
  from assms(2,3) have len: "length (fst (f RNG MUTCOUNTS (ucast (model_total MM))
      (map (\<lambda>i. ddiv (of_size_t (counts MM ! i)) (of_size_t (model_total MM)))
         [0..<MUTCOUNTS]))) = MUTCOUNTS"
    by simp
  have "model_total (fst (model_bootstrap f RNG MM)) = of_nat (sum_list (map unat n))"
    by (simp only: model_bootstrap_total_sum(1) [where f = f and RNG = RNG, OF assms(1) len] assms(2))
  then show ?thesis
    by (simp add: assms(4) model_bootstrap_total_sum(2) [where f = f and RNG = RNG, OF assms(1) len])
qed

theorem model_bootstrap_total_of_draw_witness:
  "model_wf bootstrap_small
   \<and> fst (first_cell_draw () MUTCOUNTS (ucast (model_total bootstrap_small))
        (map (\<lambda>i. ddiv (of_size_t (counts bootstrap_small ! i))
                (of_size_t (model_total bootstrap_small))) [0..<MUTCOUNTS])) =
      [5, 0, 0, 0, 0, 0, 0, 0, 0, 0]
   \<and> length [5 :: uint, 0, 0, 0, 0, 0, 0, 0, 0, 0] = MUTCOUNTS
   \<and> sum_list (map unat [5 :: uint, 0, 0, 0, 0, 0, 0, 0, 0, 0]) =
      unat (model_total bootstrap_small)
   \<and> model_total (fst (model_bootstrap first_cell_draw () bootstrap_small)) = 5"
proof -
  have c: "counts bootstrap_small = [2, 0, 0, 1, 1, 0, 0, 1, 0, 0]"
    by (simp add: bootstrap_small_def)
  have wf: "model_wf bootstrap_small"
    by (simp add: model_wf_def c MUTCOUNTS_def)
  have t: "model_total bootstrap_small = 5"
    by (simp add: model_total_list [OF c])
  have d: "fst (first_cell_draw () MUTCOUNTS (ucast (model_total bootstrap_small))
        (map (\<lambda>i. ddiv (of_size_t (counts bootstrap_small ! i))
                (of_size_t (model_total bootstrap_small))) [0..<MUTCOUNTS])) =
      [5, 0, 0, 0, 0, 0, 0, 0, 0, 0]"
    by (simp add: first_cell_draw_def t) (simp add: MUTCOUNTS_def eval_nat_numeral)
  have l: "length [5 :: uint, 0, 0, 0, 0, 0, 0, 0, 0, 0] = MUTCOUNTS"
    by (simp add: MUTCOUNTS_def)
  have s: "sum_list (map unat [5 :: uint, 0, 0, 0, 0, 0, 0, 0, 0, 0]) =
      unat (model_total bootstrap_small)"
    by (simp add: t)
  from model_bootstrap_total_of_draw [where f = first_cell_draw and RNG = "()", OF wf d l s]
    wf d l s
  show ?thesis
    by (simp add: t)
qed

section \<open>Counting an anchor\<close>

lemma and3_mod4: "(len :: size_t) AND 3 = len mod 4"
proof -
  have "(3 :: size_t) = mask 2"
    by (simp add: mask_eq_exp_minus_1)
  then have "len AND 3 = take_bit 2 len"
    by (simp add: take_bit_eq_mask)
  then show ?thesis
    by (simp add: take_bit_eq_mod)
qed

lemma fourths: "(L :: size_t) div 4 + L div 4 + L div 4 + (L div 4 + L mod 4) = L"
proof -
  have "4 * (L div 4) + L mod 4 = L"
    by (rule mult_div_mod_eq)
  then show ?thesis
    by (simp add: algebra_simps)
qed

lemma estimates_no_change:
  assumes c: "counts MM = [a, 0, 0, 0, b, 0, 0, c, 0, d]" and t: "3 < model_total MM"
  shows "estimate_RAW MM = Finite 0"
    and "estimate_JC lg MM = Finite 0"
    and "estimate_KIMURA lg MM = Finite 0"
proof -
  from t have n: "model_total MM \<noteq> 0"
    by auto
  have r: "rnd_real (real (unat (model_total MM))) \<noteq> 0"
    using rnd_real_unat_ge_1 [OF n] by simp
  show raw: "estimate_RAW MM = Finite 0"
    by (simp add: estimate_RAW_large [OF t] model_sum_SNPs [OF c])
  show "estimate_JC lg MM = Finite 0"
    by (simp add: estimate_JC_def Let_def raw rnd_4_3)
  show "estimate_KIMURA lg MM = Finite 0"
    using r
    by (simp add: estimate_KIMURA_def Let_def model_sum_transitions [OF c]
        model_sum_transversions [OF c] of_size_t_Finite)
qed

text \<open>
  Claim C7. For every length \<open>L\<close> of at least 4 and an active model among RAW, JC and
  KIMURA, \<^verbatim>\<open>model_count_equal\<close> on an empty matrix returns a matrix whose four no-change
  counts are \<open>L div 4\<close> each, with the remainder \<open>L mod 4\<close> added to the T-T count; they
  sum to \<open>L\<close>, the change counts stay 0, and \<^verbatim>\<open>estimate_RAW\<close>, \<^verbatim>\<open>estimate_JC\<close> and
  \<^verbatim>\<open>estimate_KIMURA\<close> all return 0.
\<close>

theorem model_count_equal_fast:
  assumes "4 \<le> L" and "MODEL = M_RAW \<or> MODEL = M_JC \<or> MODEL = M_KIMURA"
  shows "\<exists>MM. model_count_equal MODEL (model_empty l) S L = Some MM
    \<and> counts MM = [L div 4, 0, 0, 0, L div 4, 0, 0, L div 4, 0, L div 4 + L mod 4]
    \<and> counts MM ! AtoA + counts MM ! CtoC + counts MM ! GtoG + counts MM ! TtoT = L
    \<and> model_total MM = L
    \<and> estimate_RAW MM = Finite 0 \<and> estimate_JC lg MM = Finite 0
    \<and> estimate_KIMURA lg MM = Finite 0"
proof -
  let ?c = "[L div 4, 0, 0, 0, L div 4, 0, 0, L div 4, 0, L div 4 + L mod 4]"
  let ?MM = "\<lparr>counts = ?c, seq_len = l\<rparr>"
  have run: "model_count_equal MODEL (model_empty l) S L = Some ?MM"
    using assms(2)
    by (simp add: model_count_equal_def Let_def model_empty_eq and3_mod4)
      (simp add: mut_defs)
  have c: "counts ?MM = ?c"
    by simp
  have t: "model_total ?MM = L"
    using fourths [of L] by (simp add: model_total_list [OF c])
  have 4: "counts ?MM ! AtoA + counts ?MM ! CtoC + counts ?MM ! GtoG + counts ?MM ! TtoT = L"
    using fourths [of L] by (simp add: mut_defs)
  from assms(1) have "3 < model_total ?MM"
    unfolding t by (simp add: word_less_nat_alt word_le_nat_alt)
  note e = estimates_no_change [OF c this]
  from run c t 4 e show ?thesis
    by blast
qed

theorem model_count_equal_fast_witness:
  "(4 :: size_t) \<le> 10
   \<and> (\<exists>MM. model_count_equal M_JC (model_empty 10) ''ACGTACGTAC'' 10 = Some MM
        \<and> counts MM = [2, 0, 0, 0, 2, 0, 0, 2, 0, 4]
        \<and> model_total MM = 10
        \<and> estimate_RAW MM = Finite 0 \<and> estimate_JC ln MM = Finite 0
        \<and> estimate_KIMURA ln MM = Finite 0)"
proof -
  have h: "(4 :: size_t) \<le> 10" "M_JC = M_RAW \<or> M_JC = M_JC \<or> M_JC = M_KIMURA"
    by simp_all
  have "(10 :: size_t) div 4 = 2" "(10 :: size_t) mod 4 = 2"
    by simp_all
  with model_count_equal_fast [OF h, where lg = ln and l = 10 and S = "''ACGTACGTAC''"] h(1)
  show ?thesis
    by auto
qed

section \<open>Counting aligned positions\<close>

lemma uchar_and6_cases:
  "(c :: uchar) AND 6 = 0 \<or> c AND 6 = 2 \<or> c AND 6 = 4 \<or> c AND 6 = 6"
proof -
  have le: "unat (c AND 6) \<le> 6"
    using word_and_le1 [of c 6] by (simp add: word_le_nat_alt)
  have "even (c AND 6)"
    by (simp add: even_and_iff)
  then have "(c AND 6) mod 2 = 0"
    by (simp add: even_iff_mod_2_eq_zero)
  then have "unat ((c AND 6) mod 2) = 0"
    by simp
  then have "unat (c AND 6) mod 2 = 0"
    by (simp add: unat_mod_distrib)
  with le have "unat (c AND 6) = 0 \<or> unat (c AND 6) = 2 \<or> unat (c AND 6) = 4
      \<or> unat (c AND 6) = 6"
    by presburger
  then show ?thesis
    unfolding word_unat_eq_iff by simp
qed

lemma nucl2bit_cases:
  "nucl2bit c = 0 \<or> nucl2bit c = 1 \<or> nucl2bit c = 2 \<or> nucl2bit c = 3"
  unfolding nucl2bit_def Let_def
  using uchar_and6_cases [of c] by (elim disjE; simp only: ; simp)

lemma mut_index_less: "unat (mut_index s q) < MUTCOUNTS"
proof -
  have "mut_index s q < 10"
    using nucl2bit_cases [of "c_char s"] nucl2bit_cases [of "c_char q"]
    by (auto simp: mut_index_def Let_def map4_def)
  then show ?thesis
    by (simp add: word_less_nat_alt MUTCOUNTS_def)
qed

lemma count_loop_sum:
  assumes "n \<le> length S" and "n \<le> length Q" and "length lc = MUTCOUNTS"
  shows "\<exists>lc'. count_loop S Q n lc = Some lc' \<and> length lc' = MUTCOUNTS
    \<and> sum_list lc' =
        sum_list lc + of_nat (length (filter counted_pair (zip (take n S) (take n Q))))"
  using assms
proof (induction S Q n lc rule: count_loop.induct)
  case (1 S Q local_counts)
  then show ?case by simp
next
  case (2 Q len local_counts)
  then show ?case by simp
next
  case (3 s S len local_counts)
  then show ?case by simp
next
  case (4 s S q Q len local_counts)
  show ?case
  proof (cases "char_lt s (CHR ''A'') \<or> char_lt q (CHR ''A'')")
    case True
    with 4 show ?thesis
      by (auto simp: counted_pair_def)
  next
    case False
    let ?i = "unat (mut_index s q)"
    let ?lc = "local_counts[?i := local_counts ! ?i + 1]"
    have i: "?i < length local_counts"
      using mut_index_less [of s q] "4.prems" by simp
    from "4.IH"(2) [OF False refl i] "4.prems"
    obtain lc' where "count_loop S Q len ?lc = Some lc'" "length lc' = MUTCOUNTS"
      "sum_list lc' =
        sum_list ?lc + of_nat (length (filter counted_pair (zip (take len S) (take len Q))))"
      by auto
    with False i show ?thesis
      by (simp add: counted_pair_def sum_list_increment Let_def)
  qed
qed

lemma merge_local_counts:
  assumes "counts MM = [a0, a1, a2, a3, a4, a5, a6, a7, a8, a9]"
  shows "fold (\<lambda>i M. M\<lparr>counts :=
             (counts M)[i := counts M ! i + [b0, b1, b2, b3, b4, b5, b6, b7, b8, b9] ! i]\<rparr>)
           [0..<MUTCOUNTS] MM =
         MM\<lparr>counts := [a0 + b0, a1 + b1, a2 + b2, a3 + b3, a4 + b4, a5 + b5, a6 + b6,
           a7 + b7, a8 + b8, a9 + b9]\<rparr>"
  using assms by (simp add: upt_MUTCOUNTS)

text \<open>
  Claim C10. For every pair of characters that are both at least \<^verbatim>\<open>'A'\<close> the index that
  the loop computes is below \<^verbatim>\<open>MUTCOUNTS\<close>, so every increment falls inside the local
  buffer; and on fragments of at least \<open>len\<close> characters \<^verbatim>\<open>model_count\<close> returns a
  matrix whose total is the old total plus the number of positions where both
  characters are at least \<^verbatim>\<open>'A'\<close>.
\<close>

theorem model_count_in_bounds:
  assumes "model_wf MM" and "unat len \<le> length S" and "unat len \<le> length Q"
  shows "(\<forall>s q. \<not> char_lt s (CHR ''A'') \<and> \<not> char_lt q (CHR ''A'') \<longrightarrow>
            unat (mut_index s q) < MUTCOUNTS)
    \<and> (\<exists>MM'. model_count MM S Q len = Some MM'
          \<and> model_total MM' = model_total MM + of_nat (counted_positions S Q len))"
proof -
  from assms(1) obtain a0 a1 a2 a3 a4 a5 a6 a7 a8 a9
    where a: "counts MM = [a0, a1, a2, a3, a4, a5, a6, a7, a8, a9]"
    by (rule model_wf_cases)
  have "length (replicate MUTCOUNTS (0 :: size_t)) = MUTCOUNTS"
    by simp
  from count_loop_sum [OF assms(2,3) this]
  obtain lc where lc: "count_loop S Q (unat len) (replicate MUTCOUNTS 0) = Some lc"
    "length lc = MUTCOUNTS"
    "sum_list lc = of_nat (counted_positions S Q len)"
    by (auto simp: counted_positions_def sum_list_replicate_0)
  from lc(2) obtain b0 b1 b2 b3 b4 b5 b6 b7 b8 b9
    where b: "lc = [b0, b1, b2, b3, b4, b5, b6, b7, b8, b9]"
    by (rule list10_cases)
  let ?MM' = "MM\<lparr>counts := [a0 + b0, a1 + b1, a2 + b2, a3 + b3, a4 + b4, a5 + b5,
    a6 + b6, a7 + b7, a8 + b8, a9 + b9]\<rparr>"
  have run: "model_count MM S Q len = Some ?MM'"
    by (simp add: model_count_def lc(1)) (simp add: b merge_local_counts [OF a])
  have a': "counts ?MM' = [a0 + b0, a1 + b1, a2 + b2, a3 + b3, a4 + b4, a5 + b5, a6 + b6,
      a7 + b7, a8 + b8, a9 + b9]"
    by simp
  have "model_total ?MM' = model_total MM + sum_list lc"
    by (simp add: model_total_list [OF a] model_total_list [OF a'] b)
  with run lc(3) show ?thesis
    by (simp add: mut_index_less)
qed

theorem model_count_in_bounds_witness:
  "model_wf bootstrap_small \<and> unat (6 :: size_t) \<le> length ''AC;GTT''
   \<and> unat (6 :: size_t) \<le> length ''ACGGAT#''
   \<and> \<not> char_lt (CHR ''T'') (CHR ''A'') \<and> \<not> char_lt (CHR ''G'') (CHR ''A'')
   \<and> unat (mut_index (CHR ''T'') (CHR ''G'')) < MUTCOUNTS
   \<and> counted_positions ''AC;GTT'' ''ACGGAT#'' 6 = 5
   \<and> (\<exists>MM'. model_count bootstrap_small ''AC;GTT'' ''ACGGAT#'' 6 = Some MM'
         \<and> model_total MM' = model_total bootstrap_small + 5)"
proof -
  have h: "model_wf bootstrap_small" "unat (6 :: size_t) \<le> length ''AC;GTT''"
    "unat (6 :: size_t) \<le> length ''ACGGAT#''"
    by (simp_all add: model_wf_def bootstrap_small_def MUTCOUNTS_def)
  have c: "\<not> char_lt (CHR ''T'') (CHR ''A'')" "\<not> char_lt (CHR ''G'') (CHR ''A'')"
    by (simp_all add: char_lt_def c_char_def)
  have p: "counted_positions ''AC;GTT'' ''ACGGAT#'' 6 = 5"
    by code_simp
  from model_count_in_bounds [OF h] h c p show ?thesis
    by simp
qed

lemma count_loop_example:
  "count_loop ''AACGT'' ''AACGA'' 5 [0, 0, 0, 0, 0, 0, 0, 0, 0, 0] =
     Some [2, 0, 0, 1, 1, 0, 0, 1, 0, 0]"
  by code_simp

text \<open>
  Claim C8. \<^verbatim>\<open>model_count\<close> on an empty matrix with the subject \<^verbatim>\<open>"AACGT"\<close>, the query
  \<^verbatim>\<open>"AACGA"\<close> and the length 5 counts two A-A positions, one C-C, one G-G and one A-T
  and nothing else; the total is then 5 and \<^verbatim>\<open>estimate_RAW\<close> returns the double that the
  literal \<^verbatim>\<open>0.2\<close> denotes, the one nearest to 0.2.
\<close>

theorem model_count_example:
  "\<exists>MM. model_count (model_empty l) ''AACGT'' ''AACGA'' 5 = Some MM
     \<and> counts MM = [2, 0, 0, 1, 1, 0, 0, 1, 0, 0]
     \<and> counts MM ! AtoA = 2 \<and> counts MM ! CtoC = 1 \<and> counts MM ! GtoG = 1
     \<and> counts MM ! AtoT = 1
     \<and> model_total MM = 5
     \<and> estimate_RAW MM = rnd 0.2
     \<and> rnd 0.2 = Finite (3602879701896397 / 18014398509481984)"
proof -
  let ?MM = "\<lparr>counts = [2, 0, 0, 1, 1, 0, 0, 1, 0, 0], seq_len = l\<rparr>"
  have c: "counts ?MM = [2, 0, 0, 1, 1, 0, 0, 1, 0, 0]"
    by simp
  have run: "model_count (model_empty l) ''AACGT'' ''AACGA'' 5 = Some ?MM"
    by (simp add: model_count_def replicate_MUTCOUNTS count_loop_example
        merge_local_counts [OF counts_model_empty]) (simp add: model_empty_eq)
  have t: "model_total ?MM = 5"
    by (simp add: model_total_list [OF c])
  have 5: "rnd_real 5 = 5"
    using rnd_real_nat_exact [of 5] by simp
  have l: "rnd 0.2 = Finite (3602879701896397 / 18014398509481984)"
    using rnd_small(1) [of "1 / 5"] by (simp add: rnd_real_1_5)
  have "estimate_RAW ?MM = rnd (1 / 5)"
    using estimate_RAW_large [of ?MM] by (simp add: t model_sum_SNPs [OF c] 5)
  then have r: "estimate_RAW ?MM = rnd 0.2"
    by simp
  from run c t r l show ?thesis
    by (simp add: mut_defs)
qed

lemma count_loop_skip:
  assumes "length S1 = length Q1"
    and "char_lt s (CHR ''A'') \<or> char_lt q (CHR ''A'')"
    and "length S1 \<le> n"
  shows "count_loop (S1 @ s # S2) (Q1 @ q # Q2) (Suc n) lc =
    count_loop (S1 @ S2) (Q1 @ Q2) n lc"
  using assms
proof (induction S1 Q1 arbitrary: n lc rule: list_induct2)
  case Nil
  then show ?case by auto
next
  case (Cons a S1 b Q1)
  then obtain m where m: "n = Suc m" "length S1 \<le> m"
    by (cases n) auto
  from Cons.IH [OF Cons.prems(1) m(2)] show ?case
    by (simp add: m(1) Let_def)
qed

text \<open>
  The letter \<^verbatim>\<open>N\<close> is not below \<^verbatim>\<open>'A'\<close>. A position that holds it in both fragments is
  not skipped: its bits 1 and 2 are those of \<^verbatim>\<open>G\<close>, and the position is counted as G-G.
\<close>

theorem model_count_N_counterexample:
  "\<not> char_lt (CHR ''N'') (CHR ''A'')
   \<and> model_count (model_empty 1) ''N'' ''N'' 1 =
       Some \<lparr>counts = [0, 0, 0, 0, 0, 0, 0, 1, 0, 0], seq_len = 1\<rparr>
   \<and> model_total \<lparr>counts = [0, 0, 0, 0, 0, 0, 0, 1, 0, 0], seq_len = 1\<rparr> = 1"
proof -
  have "model_count (model_empty 1) ''N'' ''N'' 1 =
      Some \<lparr>counts = [0, 0, 0, 0, 0, 0, 0, 1, 0, 0], seq_len = 1\<rparr>"
    by code_simp
  moreover have "model_total \<lparr>counts = [0, 0, 0, 0, 0, 0, 0, 1, 0, 0], seq_len = 1\<rparr> = 1"
    by (simp add: model_total_list [of _ 0 0 0 0 0 0 0 1 0 0])
  moreover have "\<not> char_lt (CHR ''N'') (CHR ''A'')"
    by (simp add: char_lt_def c_char_def)
  ultimately show ?thesis
    by simp
qed

text \<open>
  Claim C3, amended. In \<^verbatim>\<open>model_count\<close>, an aligned position where either character is
  below \<^verbatim>\<open>'A'\<close> (as the separators and paddings \<^verbatim>\<open>;\<close>, \<^verbatim>\<open>!\<close> and \<^verbatim>\<open>#\<close> are, and the gap
  \<^verbatim>\<open>-\<close>) is skipped entirely: the call returns what it returns on the fragments without
  that position, so the position adds to none of the ten counts and not to the total.
\<close>

theorem model_count_skips_special:
  assumes "length S1 = length Q1"
    and "char_lt s (CHR ''A'') \<or> char_lt q (CHR ''A'')"
    and "length S1 < unat len"
  shows "model_count MM (S1 @ s # S2) (Q1 @ q # Q2) len =
    model_count MM (S1 @ S2) (Q1 @ Q2) (len - 1)"
proof -
  from assms(3) have "len \<noteq> 0"
    by auto
  then have "unat (len - 1) = unat len - 1"
    by (simp add: unat_minus_one)
  with assms(3) obtain n where n: "unat len = Suc n" "unat (len - 1) = n" "length S1 \<le> n"
    by (cases "unat len") auto
  show ?thesis
    by (simp add: model_count_def n(1,2) count_loop_skip [OF assms(1,2) n(3)])
qed

theorem model_count_skips_special_witness:
  "length ''AC'' = length ''AC''
   \<and> (char_lt (CHR ''-'') (CHR ''A'') \<or> char_lt (CHR ''G'') (CHR ''A''))
   \<and> length ''AC'' < unat (5 :: size_t)
   \<and> model_count (model_empty 5) ''AC-GT'' ''ACGGA'' 5 =
       model_count (model_empty 5) ''ACGT'' ''ACGA'' 4
   \<and> model_count (model_empty 5) ''ACGT'' ''ACGA'' 4 =
       Some \<lparr>counts = [1, 0, 0, 1, 1, 0, 0, 1, 0, 0], seq_len = 5\<rparr>"
proof -
  have h: "length ''AC'' = length ''AC''"
    "char_lt (CHR ''-'') (CHR ''A'') \<or> char_lt (CHR ''G'') (CHR ''A'')"
    "length ''AC'' < unat (5 :: size_t)"
    by (simp_all add: char_lt_def c_char_def)
  have r: "model_count (model_empty 5) ''ACGT'' ''ACGA'' 4 =
      Some \<lparr>counts = [1, 0, 0, 1, 1, 0, 0, 1, 0, 0], seq_len = 5\<rparr>"
    by code_simp
  from model_count_skips_special
    [OF h, of "model_empty 5" "''GT''" "''GA''"] h r
  show ?thesis
    by simp
qed

section \<open>The Jukes-Cantor correction on a small raw distance\<close>

lemma jc_tiny_facts:
  "model_wf jc_tiny" "model_total jc_tiny = 1152921504606846976"
  "model_sum jc_tiny [AtoC, AtoG, AtoT, CtoG, CtoT, GtoT] = 1"
  by (simp_all add: model_wf_def jc_tiny_def MUTCOUNTS_def
      model_total_list [of _ 1152921504606846975 1 0 0 0 0 0 0 0 0]
      model_sum_SNPs [of _ 1152921504606846975 1 0 0 0 0 0 0 0 0])

lemma jc_tiny_RAW: "estimate_RAW jc_tiny = Finite (1 / 1152921504606846976)"
proof -
  have "estimate_RAW jc_tiny = rnd (1 / 1152921504606846976)"
    using estimate_RAW_large [of jc_tiny] by (simp add: jc_tiny_facts rnd_real_pow60)
  also have "\<dots> = Finite (1 / 1152921504606846976)"
    by (rule rnd_exact) (simp_all add: rnd_real_tiny)
  finally show ?thesis .
qed

text \<open>
  Claim C9. Whenever \<^verbatim>\<open>estimate_RAW\<close> and \<^verbatim>\<open>estimate_JC\<close> are both defined,
  \<^verbatim>\<open>estimate_JC\<close> is at least \<^verbatim>\<open>estimate_RAW\<close>. The correction
  \<open>- 3/4 ln (1 - 4/3 d)\<close> is at least \<open>d\<close>, but the code takes the logarithm of the
  rounded difference \<^verbatim>\<open>1.0 - (4.0 / 3.0) * dist\<close>. With one substitution in \<open>2 ^ 60\<close>
  positions the raw distance is \<open>1 / 2 ^ 60\<close>, the difference rounds to 1, the logarithm
  is 0 and \<^verbatim>\<open>estimate_JC\<close> returns 0, below the raw distance, whatever the \<^verbatim>\<open>log\<close> of
  the C library returns on other arguments.
\<close>

theorem estimate_JC_below_RAW:
  "model_wf jc_tiny \<and> 3 < model_total jc_tiny
   \<and> estimate_RAW jc_tiny = Finite (1 / 2 ^ 60)
   \<and> estimate_JC lg jc_tiny = Finite 0
   \<and> \<not> dle (estimate_RAW jc_tiny) (estimate_JC lg jc_tiny)"
proof -
  let ?c = "6004799503160661 / 4503599627370496 :: real"
  let ?x = "6004799503160661 / 5192296858534827628530496329220096 :: real"
  have x: "rnd (?c * (1 / 1152921504606846976)) = Finite ?x"
    using rnd_Finite [of "?c * (1 / 1152921504606846976)"] huge_gt
    by (simp only: rnd_real_c_tiny) simp
  have y: "rnd (1 - ?x) = Finite 1"
    using rnd_Finite [of "1 - ?x"] huge_gt
    by (simp only: rnd_real_one_minus_tiny) simp
  have x': "dmul (Finite ?c) (Finite (1 / 1152921504606846976)) = Finite ?x"
    by (simp only: dmul.simps x)
  have y': "dsub (Finite 1) (Finite ?x) = Finite 1"
    by (simp only: dsub.simps y)
  have z: "dlog lg (Finite 1) = Finite 0"
    by simp
  have j: "dmul (Finite (- (3 / 4))) (Finite 0) = Finite 0"
    by simp
  have jc: "estimate_JC lg jc_tiny = Finite 0"
    by (simp add: estimate_JC_steps [OF jc_tiny_RAW x' y' z j])
  show ?thesis
    by (simp add: jc jc_tiny_RAW jc_tiny_facts)
qed

text \<open>
  The same on a sample of \<open>2 ^ 29\<close> positions, where the difference
  \<^verbatim>\<open>1.0 - (4.0 / 3.0) * dist\<close> rounds to \<open>1 - 22369621 / 2 ^ 53\<close>: the logarithm of this
  number lies between \<open>- m - 2 m\<^sup>2\<close> and \<open>- m\<close> for \<open>m = 22369621 / 2 ^ 53\<close>.
\<close>

lemma jc_small_facts:
  "model_wf jc_small" "model_total jc_small = 536870912"
  "model_sum jc_small [AtoC, AtoG, AtoT, CtoG, CtoT, GtoT] = 1"
  by (simp_all add: model_wf_def jc_small_def MUTCOUNTS_def
      model_total_list [of _ 536870911 1 0 0 0 0 0 0 0 0]
      model_sum_SNPs [of _ 536870911 1 0 0 0 0 0 0 0 0])

lemma jc_small_RAW: "estimate_RAW jc_small = Finite (1 / 536870912)"
proof -
  have "estimate_RAW jc_small = rnd (1 / 536870912)"
    using estimate_RAW_large [of jc_small] by (simp add: jc_small_facts rnd_real_pow29)
  also have "\<dots> = Finite (1 / 536870912)"
    by (rule rnd_exact) (simp_all add: rnd_real_inv29)
  finally show ?thesis .
qed

lemma ln_near_one:
  "- (22369621 / 9007199254740992) - 2 * (22369621 / 9007199254740992)\<^sup>2
     \<le> ln (9007199232371371 / 9007199254740992 :: real)"
  "ln (9007199232371371 / 9007199254740992 :: real) \<le> - (22369621 / 9007199254740992)"
proof -
  let ?m = "22369621 / 9007199254740992 :: real"
  have y: "9007199232371371 / 9007199254740992 = 1 - ?m"
    by simp
  show "- ?m - 2 * ?m\<^sup>2 \<le> ln (9007199232371371 / 9007199254740992 :: real)"
    unfolding y by (rule ln_one_minus_pos_lower_bound) simp_all
  have "ln (1 - ?m) \<le> (1 - ?m) - 1"
    by (rule ln_le_minus_one) simp
  then show "ln (9007199232371371 / 9007199254740992 :: real) \<le> - ?m"
    unfolding y by simp
qed

text \<open>
  With one substitution in \<open>2 ^ 29\<close> positions, and a \<^verbatim>\<open>log\<close> of the C library that is
  within \<open>2 ^ (-60)\<close> of the natural logarithm at the argument it gets, \<^verbatim>\<open>estimate_JC\<close>
  returns a positive number below the raw distance \<open>1 / 2 ^ 29\<close>: rounding the
  difference \<^verbatim>\<open>1.0 - (4.0 / 3.0) * dist\<close> to a multiple of \<open>2 ^ (-53)\<close> loses a third of
  a unit, more than the correction adds.
\<close>

theorem estimate_JC_below_RAW_small:
  assumes "\<bar>lg (9007199232371371 / 9007199254740992)
             - ln (9007199232371371 / 9007199254740992)\<bar> \<le> 1 / 2 ^ 60"
  shows "model_wf jc_small \<and> 3 < model_total jc_small
    \<and> estimate_RAW jc_small = Finite (1 / 2 ^ 29)
    \<and> (\<exists>j. estimate_JC lg jc_small = Finite j \<and> 0 < j \<and> j < 1 / 2 ^ 29)
    \<and> \<not> dle (estimate_RAW jc_small) (estimate_JC lg jc_small)"
proof -
  let ?c = "6004799503160661 / 4503599627370496 :: real"
  let ?x = "6004799503160661 / 2417851639229258349412352 :: real"
  let ?y = "9007199232371371 / 9007199254740992 :: real"
  let ?U = "9007199254740991 / 4835703278458516698824704 :: real"
  let ?L = "1 / 4503599627370496 :: real"
  define t where "t = - (3 / 4) * lg ?y"
  define j where "j = rnd_real t"
  have x: "rnd (?c * (1 / 536870912)) = Finite ?x"
    using rnd_Finite [of "?c * (1 / 536870912)"] huge_gt
    by (simp only: rnd_real_c_inv29) simp
  have y: "rnd (1 - ?x) = Finite ?y"
    using rnd_Finite [of "1 - ?x"] huge_gt
    by (simp only: rnd_real_one_minus_inv29) simp
  have x': "dmul (Finite ?c) (Finite (1 / 536870912)) = Finite ?x"
    by (simp only: dmul.simps x)
  have y': "dsub (Finite 1) (Finite ?x) = Finite ?y"
    by (simp only: dsub.simps y)
  have z: "dlog lg (Finite ?y) = Finite (lg ?y)"
    by simp
  define a where "a = lg ?y"
  define b where "b = ln ?y"
  from assms have "\<bar>a - b\<bar> \<le> 1 / 2 ^ 60"
    unfolding a_def b_def .
  then have "\<bar>a - b\<bar> \<le> 1 / 1152921504606846976"
    by simp
  then have ab: "a \<le> b + 1 / 1152921504606846976" "b - 1 / 1152921504606846976 \<le> a"
    by linarith+
  have b: "- (100743817300419165785657 / 40564819207303340847894502572032) \<le> b"
    "b \<le> - (22369621 / 9007199254740992)"
    using ln_near_one unfolding b_def by (simp_all add: power2_eq_square)
  have t: "t = - (3 / 4) * a"
    by (simp only: t_def a_def)
  from ab b have tL: "?L \<le> t" and tU: "t \<le> ?U"
    unfolding t by linarith+
  have t0: "0 \<le> t" and t64: "t \<le> 2 ^ 64"
    using tL tU by simp_all
  have r: "rnd t = Finite j"
    unfolding j_def using t0 t64 by (rule rnd_small(1))
  have "rnd_real ?L \<le> j"
    unfolding j_def using tL by (intro rnd_real_mono) simp_all
  then have jL: "0 < j"
    by (simp add: rnd_real_eps)
  have "j \<le> rnd_real ?U"
    unfolding j_def using t0 tU by (rule rnd_real_mono)
  then have jU: "j < 1 / 2 ^ 29"
    by (simp add: rnd_real_below_inv29)
  have j': "dmul (Finite (- (3 / 4))) (Finite (lg ?y)) = Finite j"
    using r by (simp only: dmul.simps t_def)
  have jc: "estimate_JC lg jc_small = Finite j"
    using jL by (simp add: estimate_JC_steps [OF jc_small_RAW x' y' z j'])
  from jL jU show ?thesis
    by (simp add: jc jc_small_RAW jc_small_facts)
qed

theorem estimate_JC_below_RAW_small_witness:
  "\<bar>ln (9007199232371371 / 9007199254740992 :: real)
      - ln (9007199232371371 / 9007199254740992)\<bar> \<le> 1 / 2 ^ 60
   \<and> estimate_RAW jc_small = Finite (1 / 2 ^ 29)
   \<and> (\<exists>j. estimate_JC ln jc_small = Finite j \<and> 0 < j \<and> j < 1 / 2 ^ 29)"
  using estimate_JC_below_RAW_small [of ln] by simp

section \<open>The codes of the canonical letters\<close>

text \<open>
  Each of the four canonical letters gets its own code, and a position that holds the
  same canonical letter in both fragments has the index of the matching no-change
  category.
\<close>

theorem canonical_round_trip:
  "nucl2bit (c_char (CHR ''A'')) = 0 \<and> nucl2bit (c_char (CHR ''C'')) = 1
   \<and> nucl2bit (c_char (CHR ''G'')) = 2 \<and> nucl2bit (c_char (CHR ''T'')) = 3
   \<and> unat (mut_index (CHR ''A'') (CHR ''A'')) = AtoA
   \<and> unat (mut_index (CHR ''C'') (CHR ''C'')) = CtoC
   \<and> unat (mut_index (CHR ''G'') (CHR ''G'')) = GtoG
   \<and> unat (mut_index (CHR ''T'') (CHR ''T'')) = TtoT"
  by (simp add: nucl2bit_def mut_index_def c_char_def map4_def mut_defs)

end
